theory Spec2Isabelle
  imports Main "HOL-Library.Word" "HOL-Library.Monad_Syntax"
begin

unbundle bit_operations_syntax

section \<open>Data model of RingBuffer.c\<close>

text \<open>
  The embedding fixes an LP64 target: \<^verbatim>\<open>size_t\<close>, \<^verbatim>\<open>uintptr_t\<close> and object
  pointers are 64-bit words, \<^verbatim>\<open>int\<close> is 32 bits wide. A pointer that may be
  \<^verbatim>\<open>NULL\<close> is an optional address; \<open>None\<close> is \<^verbatim>\<open>NULL\<close>.
\<close>

type_synonym size_t = "64 word"
type_synonym addr = "64 word"
type_synonym ptr = "addr option"
type_synonym c_int = "32 word"

text \<open>\<^verbatim>\<open>#define ALIGN_SIZE(size, align) (((uintptr_t)(size) + ((uintptr_t)(align) - 1)) & ~((uintptr_t)(align) - 1))\<close>\<close>

definition ALIGN_SIZE :: "size_t \<Rightarrow> size_t \<Rightarrow> size_t" where
  "ALIGN_SIZE sz align = (sz + (align - 1)) AND NOT (align - 1)"

definition ALIGN_PTR :: "addr \<Rightarrow> size_t \<Rightarrow> addr" where
  "ALIGN_PTR p align = ALIGN_SIZE p align"

text \<open>
  Sizes and offsets of the LP64 layout: \<^verbatim>\<open>sizeof(void*)\<close> is 8;
  \<^verbatim>\<open>ring_buffer_node_t\<close> holds four pointers, the 4-byte state padded to 8, and the
  token (one \<^verbatim>\<open>size_t\<close> followed by a flexible array), 48 bytes with the token at
  offset 40; \<^verbatim>\<open>struct ring_buffer\<close> holds a pointer, two \<^verbatim>\<open>size_t\<close> and three
  pointers, 48 bytes.
\<close>

definition sizeof_void_p :: size_t where
  "sizeof_void_p = 8"

definition sizeof_ring_buffer_node_t :: size_t where
  "sizeof_ring_buffer_node_t = 48"

definition offsetof_token :: size_t where
  "offsetof_token = 40"

definition sizeof_struct_ring_buffer :: size_t where
  "sizeof_struct_ring_buffer = 48"

datatype ring_buffer_node_state = writing | committed | reading

record ring_buffer_node =
  p_forward :: ptr
  p_backward :: ptr
  p_newer :: ptr
  p_older :: ptr
  state :: ring_buffer_node_state
  len :: size_t

text \<open>
  \<^verbatim>\<open>struct ring_buffer\<close> together with the memory of its cache. The cache is read
  and written one node header at a time, at the address of the node: \<open>nodes rb a\<close> is
  the header last written at address \<open>a\<close>, or \<open>None\<close> where no header was ever
  written. Removing a node unlinks it and leaves its bytes in place, as the C code does.
\<close>

record ring_buffer =
  cache :: addr
  capacity :: size_t
  lost :: size_t
  HEAD :: ptr
  TAIL :: ptr
  oldest_reserve :: ptr
  nodes :: "addr \<rightharpoonup> ring_buffer_node"

text \<open>Flags of \<^verbatim>\<open>ring_buffer_flag_t\<close>.\<close>

definition ring_buffer_flag_overwrite :: c_int where
  "ring_buffer_flag_overwrite = push_bit 0 1"

definition ring_buffer_flag_discard :: c_int where
  "ring_buffer_flag_discard = push_bit 1 1"

definition ring_buffer_flag_consume_on_error :: c_int where
  "ring_buffer_flag_consume_on_error = push_bit 2 1"

section \<open>Memory access\<close>

text \<open>
  Every operation returns an option: \<open>None\<close> is undefined behaviour of the C code (a
  read or write through \<^verbatim>\<open>NULL\<close>, a read of a node header that was never written, a
  relational comparison with \<^verbatim>\<open>NULL\<close>). \<open>deref rb p\<close> reads the header \<open>p\<close> points to.
\<close>

definition deref :: "ring_buffer \<Rightarrow> ptr \<Rightarrow> ring_buffer_node option" where
  "deref rb p = (case p of None \<Rightarrow> None | Some a \<Rightarrow> nodes rb a)"

text \<open>
  The content of memory that was never written as a node. A new node receives all six
  fields before any of them is read, so these values are never observed.
\<close>

definition uninit_node :: ring_buffer_node where
  "uninit_node = \<lparr>p_forward = None, p_backward = None, p_newer = None, p_older = None,
     state = writing, len = 0\<rparr>"

definition node_at :: "ring_buffer \<Rightarrow> addr \<Rightarrow> ring_buffer_node" where
  "node_at rb a = (case nodes rb a of None \<Rightarrow> uninit_node | Some n \<Rightarrow> n)"

text \<open>
  \<open>store rb a f\<close> writes one field of the header at address \<open>a\<close>, with \<open>f\<close> the
  field update; \<open>assign rb p f\<close> is the assignment \<^verbatim>\<open>p->field = v\<close> through a pointer
  that may be \<^verbatim>\<open>NULL\<close>.
\<close>

definition store :: "ring_buffer \<Rightarrow> addr \<Rightarrow> (ring_buffer_node \<Rightarrow> ring_buffer_node) \<Rightarrow> ring_buffer" where
  "store rb a f = rb\<lparr>nodes := (nodes rb)(a \<mapsto> f (node_at rb a))\<rparr>"

definition assign :: "ring_buffer \<Rightarrow> ptr \<Rightarrow> (ring_buffer_node \<Rightarrow> ring_buffer_node) \<Rightarrow> ring_buffer option" where
  "assign rb p f = (case p of None \<Rightarrow> None | Some a \<Rightarrow> Some (store rb a f))"

text \<open>\<^verbatim>\<open>&node->token\<close> and \<^verbatim>\<open>CONTAINER_FOR(token, ring_buffer_node_t, token)\<close>.\<close>

definition token_of :: "addr \<Rightarrow> addr" where
  "token_of a = a + offsetof_token"

definition CONTAINER_FOR :: "addr \<Rightarrow> addr" where
  "CONTAINER_FOR t = t - offsetof_token"

section \<open>The allocator\<close>

definition ring_buffer_node_cost_inl :: "size_t \<Rightarrow> size_t" where
  "ring_buffer_node_cost_inl l = ALIGN_SIZE (sizeof_ring_buffer_node_t + l) sizeof_void_p"

definition ring_buffer_reinit :: "ring_buffer \<Rightarrow> ring_buffer" where
  "ring_buffer_reinit rb = rb\<lparr>oldest_reserve := None, HEAD := None, TAIL := None\<rparr>"

text \<open>The result pairs the returned token pointer (\<open>None\<close> for \<^verbatim>\<open>NULL\<close>) with the buffer.\<close>

definition ring_buffer_reserve_empty ::
  "ring_buffer \<Rightarrow> size_t \<Rightarrow> size_t \<Rightarrow> (ptr \<times> ring_buffer) option" where
  "ring_buffer_reserve_empty rb data_len node_size =
     (if node_size > capacity rb then Some (None, rb)
      else do {
        let rb = rb\<lparr>HEAD := Some (cache rb)\<rparr>;
        rb \<leftarrow> assign rb (HEAD rb) (\<lambda>n. n\<lparr>state := writing\<rparr>);
        rb \<leftarrow> assign rb (HEAD rb) (\<lambda>n. n\<lparr>len := data_len\<rparr>);
        rb \<leftarrow> assign rb (HEAD rb) (\<lambda>n. n\<lparr>p_forward := HEAD rb\<rparr>);
        rb \<leftarrow> assign rb (HEAD rb) (\<lambda>n. n\<lparr>p_backward := HEAD rb\<rparr>);
        rb \<leftarrow> assign rb (HEAD rb) (\<lambda>n. n\<lparr>p_newer := None\<rparr>);
        rb \<leftarrow> assign rb (HEAD rb) (\<lambda>n. n\<lparr>p_older := None\<rparr>);
        let rb = rb\<lparr>TAIL := HEAD rb\<rparr>;
        let rb = rb\<lparr>oldest_reserve := HEAD rb\<rparr>;
        Some (map_option token_of (oldest_reserve rb), rb)
      })"

definition ring_buffer_update_time_for_new_node :: "ring_buffer \<Rightarrow> addr \<Rightarrow> ring_buffer option" where
  "ring_buffer_update_time_for_new_node rb new_node =
     do {
       rb \<leftarrow> assign rb (Some new_node) (\<lambda>n. n\<lparr>p_newer := None\<rparr>);
       rb \<leftarrow> assign rb (Some new_node) (\<lambda>n. n\<lparr>p_older := HEAD rb\<rparr>);
       n \<leftarrow> deref rb (Some new_node);
       rb \<leftarrow> assign rb (p_older n) (\<lambda>m. m\<lparr>p_newer := Some new_node\<rparr>);
       Some (rb\<lparr>HEAD := Some new_node\<rparr>)
     }"

text \<open>
  The \<^verbatim>\<open>while (1)\<close> loop of \<^verbatim>\<open>_ring_buffer_reserve_overwrite\<close>, over the locals
  \<^verbatim>\<open>sum_size\<close>, \<^verbatim>\<open>lost_node\<close> and \<^verbatim>\<open>node_end\<close>; the result is their value at the
  \<^verbatim>\<open>break\<close>. The conjuncts are tested left to right, as \<^verbatim>\<open>&&\<close> does. Every
  iteration moves \<^verbatim>\<open>node_end\<close> to a strictly higher address, so the loop terminates.
\<close>

function overwrite_loop ::
  "ring_buffer \<Rightarrow> size_t \<Rightarrow> size_t \<Rightarrow> size_t \<Rightarrow> addr \<Rightarrow> (size_t \<times> size_t \<times> addr) option" where
  "overwrite_loop rb node_size sum_size lost_node node_end =
     (case nodes rb node_end of
        None \<Rightarrow> None
      | Some e \<Rightarrow>
          if \<not> (sum_size + ring_buffer_node_cost_inl (len e) < node_size)
          then Some (sum_size + ring_buffer_node_cost_inl (len e), lost_node, node_end)
          else (case p_forward e of
                  None \<Rightarrow> None
                | Some f \<Rightarrow>
                    (case nodes rb f of
                       None \<Rightarrow> None
                     | Some fn \<Rightarrow>
                         if state fn = committed \<and> p_forward e = p_newer e \<and> f > node_end
                         then overwrite_loop rb node_size
                                (sum_size + ring_buffer_node_cost_inl (len e)) (lost_node + 1) f
                         else Some (sum_size + ring_buffer_node_cost_inl (len e), lost_node, node_end))))"
  by pat_completeness auto
termination
proof (relation "measure (\<lambda>(rb, node_size, sum_size, lost_node, node_end). 2 ^ 64 - unat node_end)")
  show "wf (measure (\<lambda>(rb :: ring_buffer, node_size :: size_t, sum_size :: size_t,
      lost_node :: size_t, node_end :: addr). 2 ^ 64 - unat node_end))"
    by simp
next
  fix rb :: ring_buffer and node_size sum_size lost_node :: size_t and node_end f :: addr
    and e fn :: ring_buffer_node
  assume "state fn = committed \<and> p_forward e = p_newer e \<and> node_end < f"
  then have lt: "unat node_end < unat f"
    by (simp add: word_less_nat_alt)
  have "unat f < 2 ^ 64"
    using unsigned_less [of f, where 'a = nat] by simp
  with lt show "((rb, node_size, sum_size + ring_buffer_node_cost_inl (len e), lost_node + 1, f),
      (rb, node_size, sum_size, lost_node, node_end))
    \<in> measure (\<lambda>(rb, node_size, sum_size, lost_node, node_end). 2 ^ 64 - unat node_end)"
    by simp
qed

text \<open>
  The statements of \<^verbatim>\<open>_ring_buffer_reserve_overwrite\<close> after the loop, once
  \<^verbatim>\<open>sum_size >= node_size\<close> holds: the run from \<^verbatim>\<open>node_start\<close> to \<^verbatim>\<open>node_end\<close> is
  unlinked and \<^verbatim>\<open>node_start\<close> becomes the new node. Every field is read from memory
  at the point where the C statement reads it.
\<close>

definition overwrite_evict ::
  "ring_buffer \<Rightarrow> addr \<Rightarrow> addr \<Rightarrow> size_t \<Rightarrow> size_t \<Rightarrow> (ptr \<times> ring_buffer) option" where
  "overwrite_evict rb node_start node_end lost_node data_len =
     do {
       e \<leftarrow> deref rb (Some node_end);
       let rb = rb\<lparr>oldest_reserve := p_newer e\<rparr>;
       e \<leftarrow> deref rb (Some node_end);
       rb \<leftarrow> assign rb (Some node_start) (\<lambda>n. n\<lparr>p_forward := p_forward e\<rparr>);
       e \<leftarrow> deref rb (Some node_end);
       rb \<leftarrow> assign rb (p_forward e) (\<lambda>n. n\<lparr>p_backward := Some node_start\<rparr>);
       s \<leftarrow> deref rb (Some node_start);
       rb \<leftarrow> (if p_older s \<noteq> None
              then do {
                e \<leftarrow> deref rb (Some node_end);
                assign rb (p_older s) (\<lambda>n. n\<lparr>p_newer := p_newer e\<rparr>)
              }
              else Some rb);
       e \<leftarrow> deref rb (Some node_end);
       s \<leftarrow> deref rb (Some node_start);
       rb \<leftarrow> assign rb (p_newer e) (\<lambda>n. n\<lparr>p_older := p_older s\<rparr>);
       rb \<leftarrow> ring_buffer_update_time_for_new_node rb node_start;
       let rb = rb\<lparr>lost := lost rb + lost_node\<rparr>;
       rb \<leftarrow> assign rb (Some node_start) (\<lambda>n. n\<lparr>len := data_len\<rparr>);
       Some (Some (token_of node_start), rb)
     }"

definition ring_buffer_reserve_overwrite ::
  "ring_buffer \<Rightarrow> size_t \<Rightarrow> size_t \<Rightarrow> (ptr \<times> ring_buffer) option" where
  "ring_buffer_reserve_overwrite rb data_len node_size =
     (if oldest_reserve rb = None then Some (None, rb)
      else do {
        r \<leftarrow> deref rb (oldest_reserve rb);
        if state r \<noteq> committed then Some (None, rb)
        else if p_forward r = oldest_reserve rb \<and> p_backward r = oldest_reserve rb then
          (if capacity rb \<ge> node_size
           then ring_buffer_reserve_empty (ring_buffer_reinit (rb\<lparr>lost := lost rb + 1\<rparr>))
                  data_len node_size
           else Some (None, rb))
        else do {
          node_start \<leftarrow> oldest_reserve rb;
          (sum_size, lost_node, node_end) \<leftarrow> overwrite_loop rb node_size 0 1 node_start;
          if sum_size < node_size then Some (None, rb)
          else overwrite_evict rb node_start node_end lost_node data_len
        }
      })"

definition ring_buffer_insert_new_node :: "ring_buffer \<Rightarrow> addr \<Rightarrow> size_t \<Rightarrow> ring_buffer option" where
  "ring_buffer_insert_new_node rb new_node data_len =
     do {
       rb \<leftarrow> assign rb (Some new_node) (\<lambda>n. n\<lparr>state := writing\<rparr>);
       rb \<leftarrow> assign rb (Some new_node) (\<lambda>n. n\<lparr>len := data_len\<rparr>);
       h \<leftarrow> deref rb (HEAD rb);
       rb \<leftarrow> assign rb (Some new_node) (\<lambda>n. n\<lparr>p_forward := p_forward h\<rparr>);
       rb \<leftarrow> assign rb (Some new_node) (\<lambda>n. n\<lparr>p_backward := HEAD rb\<rparr>);
       n \<leftarrow> deref rb (Some new_node);
       rb \<leftarrow> assign rb (p_forward n) (\<lambda>m. m\<lparr>p_backward := Some new_node\<rparr>);
       n \<leftarrow> deref rb (Some new_node);
       rb \<leftarrow> assign rb (p_backward n) (\<lambda>m. m\<lparr>p_forward := Some new_node\<rparr>);
       ring_buffer_update_time_for_new_node rb new_node
     }"

definition ring_buffer_reserve_none_empty ::
  "ring_buffer \<Rightarrow> size_t \<Rightarrow> size_t \<Rightarrow> c_int \<Rightarrow> (ptr \<times> ring_buffer) option" where
  "ring_buffer_reserve_none_empty rb data_len node_size flags =
     do {
       head \<leftarrow> HEAD rb;
       h \<leftarrow> deref rb (HEAD rb);
       let next_possible_node = head + ring_buffer_node_cost_inl (len h);
       fwd \<leftarrow> p_forward h;
       if fwd > head then
         (if fwd - next_possible_node \<ge> node_size then do {
            rb \<leftarrow> ring_buffer_insert_new_node rb next_possible_node data_len;
            Some (Some (token_of next_possible_node), rb)
          }
          else if flags AND ring_buffer_flag_overwrite \<noteq> 0
          then ring_buffer_reserve_overwrite rb data_len node_size
          else Some (None, rb))
       else if capacity rb - (next_possible_node - cache rb) \<ge> node_size then do {
         rb \<leftarrow> ring_buffer_insert_new_node rb next_possible_node data_len;
         Some (Some (token_of next_possible_node), rb)
       }
       else if fwd - cache rb \<ge> node_size then do {
         let next_possible_node = cache rb;
         rb \<leftarrow> ring_buffer_insert_new_node rb next_possible_node data_len;
         Some (Some (token_of next_possible_node), rb)
       }
       else if flags AND ring_buffer_flag_overwrite \<noteq> 0
       then ring_buffer_reserve_overwrite rb data_len node_size
       else Some (None, rb)
     }"


section \<open>Commit\<close>

text \<open>The result of a commit pairs the returned \<^verbatim>\<open>int\<close> with the buffer.\<close>

definition ring_buffer_commit_for_write_confirm ::
  "ring_buffer \<Rightarrow> addr \<Rightarrow> (int \<times> ring_buffer) option" where
  "ring_buffer_commit_for_write_confirm rb node =
     do {
       rb \<leftarrow> assign rb (Some node) (\<lambda>n. n\<lparr>state := committed\<rparr>);
       Some (0, rb)
     }"

definition ring_buffer_remove_node_chain_pos :: "ring_buffer \<Rightarrow> ptr \<Rightarrow> ring_buffer option" where
  "ring_buffer_remove_node_chain_pos rb node =
     do {
       n \<leftarrow> deref rb node;
       rb \<leftarrow> assign rb (p_backward n) (\<lambda>m. m\<lparr>p_forward := p_forward n\<rparr>);
       n \<leftarrow> deref rb node;
       assign rb (p_forward n) (\<lambda>m. m\<lparr>p_backward := p_backward n\<rparr>)
     }"

definition ring_buffer_remove_tail :: "ring_buffer \<Rightarrow> ring_buffer option" where
  "ring_buffer_remove_tail rb =
     do {
       rb \<leftarrow> ring_buffer_remove_node_chain_pos rb (TAIL rb);
       t \<leftarrow> deref rb (TAIL rb);
       rb \<leftarrow> assign rb (p_newer t) (\<lambda>m. m\<lparr>p_older := None\<rparr>);
       t \<leftarrow> deref rb (TAIL rb);
       let next_node = p_newer t;
       let rb = (if oldest_reserve rb = TAIL rb then rb\<lparr>oldest_reserve := next_node\<rparr> else rb);
       Some (rb\<lparr>TAIL := next_node\<rparr>)
     }"

definition ring_buffer_remove_head :: "ring_buffer \<Rightarrow> ring_buffer option" where
  "ring_buffer_remove_head rb =
     do {
       rb \<leftarrow> ring_buffer_remove_node_chain_pos rb (HEAD rb);
       h \<leftarrow> deref rb (HEAD rb);
       rb \<leftarrow> assign rb (p_older h) (\<lambda>m. m\<lparr>p_newer := None\<rparr>);
       let rb = (if oldest_reserve rb = HEAD rb then rb\<lparr>oldest_reserve := None\<rparr> else rb);
       h \<leftarrow> deref rb (HEAD rb);
       Some (rb\<lparr>HEAD := p_older h\<rparr>)
     }"

definition ring_buffer_delete_node :: "ring_buffer \<Rightarrow> addr \<Rightarrow> ring_buffer option" where
  "ring_buffer_delete_node rb node =
     do {
       n \<leftarrow> deref rb (Some node);
       if p_backward n = Some node \<and> p_forward n = Some node then Some (ring_buffer_reinit rb)
       else if p_older n = None then ring_buffer_remove_tail rb
       else if p_newer n = None then ring_buffer_remove_head rb
       else do {
         rb \<leftarrow> ring_buffer_remove_node_chain_pos rb (Some node);
         n \<leftarrow> deref rb (Some node);
         rb \<leftarrow> assign rb (p_older n) (\<lambda>m. m\<lparr>p_newer := p_newer n\<rparr>);
         n \<leftarrow> deref rb (Some node);
         rb \<leftarrow> assign rb (p_newer n) (\<lambda>m. m\<lparr>p_older := p_older n\<rparr>);
         n \<leftarrow> deref rb (Some node);
         Some (if oldest_reserve rb = Some node then rb\<lparr>oldest_reserve := p_newer n\<rparr> else rb)
       }
     }"

definition ring_buffer_commit_for_write_discard ::
  "ring_buffer \<Rightarrow> addr \<Rightarrow> (int \<times> ring_buffer) option" where
  "ring_buffer_commit_for_write_discard rb node =
     do {
       rb \<leftarrow> ring_buffer_delete_node rb node;
       Some (0, rb)
     }"

definition ring_buffer_commit_for_write ::
  "ring_buffer \<Rightarrow> addr \<Rightarrow> c_int \<Rightarrow> (int \<times> ring_buffer) option" where
  "ring_buffer_commit_for_write rb node flags =
     (if flags AND ring_buffer_flag_discard \<noteq> 0
      then ring_buffer_commit_for_write_discard rb node
      else ring_buffer_commit_for_write_confirm rb node)"

definition ring_buffer_commit_for_consume_confirm ::
  "ring_buffer \<Rightarrow> addr \<Rightarrow> (int \<times> ring_buffer) option" where
  "ring_buffer_commit_for_consume_confirm rb node =
     do {
       rb \<leftarrow> ring_buffer_delete_node rb node;
       Some (0, rb)
     }"

text \<open>
  \<^verbatim>\<open>_ring_buffer_commit_for_consume_discard\<close>. Its last branch reads
  \<^verbatim>\<open>rb->oldeest_reserve = node; return 0;\<close>: the assignment names a member that
  \<^verbatim>\<open>struct ring_buffer\<close> does not declare, so it changes none of the declared fields, and
  the branch returns 0 with \<^verbatim>\<open>oldest_reserve\<close> as it was.
\<close>

definition ring_buffer_commit_for_consume_discard ::
  "ring_buffer \<Rightarrow> addr \<Rightarrow> c_int \<Rightarrow> (int \<times> ring_buffer) option" where
  "ring_buffer_commit_for_consume_discard rb node flags =
     do {
       n \<leftarrow> deref rb (Some node);
       newer_reading \<leftarrow> (if p_newer n \<noteq> None
                          then do { m \<leftarrow> deref rb (p_newer n); Some (state m = reading) }
                          else Some False);
       if newer_reading then
         (if flags AND ring_buffer_flag_consume_on_error \<noteq> 0
          then ring_buffer_commit_for_consume_confirm rb node
          else Some (- 1, rb))
       else do {
         rb \<leftarrow> assign rb (Some node) (\<lambda>n. n\<lparr>state := committed\<rparr>);
         n \<leftarrow> deref rb (Some node);
         if p_newer n = None then Some (0, rb\<lparr>oldest_reserve := Some node\<rparr>)
         else do {
           just_older \<leftarrow> (if oldest_reserve rb \<noteq> None
                           then do { r \<leftarrow> deref rb (oldest_reserve rb); Some (p_older r = Some node) }
                           else Some False);
           if just_older then Some (0, rb) else Some (0, rb)
         }
       }
     }"

definition ring_buffer_commit_for_consume ::
  "ring_buffer \<Rightarrow> addr \<Rightarrow> c_int \<Rightarrow> (int \<times> ring_buffer) option" where
  "ring_buffer_commit_for_consume rb node flags =
     (if flags AND ring_buffer_flag_discard \<noteq> 0
      then ring_buffer_commit_for_consume_discard rb node flags
      else ring_buffer_commit_for_consume_confirm rb node)"

section \<open>The public interface\<close>

definition ring_buffer_heap_cost :: size_t where
  "ring_buffer_heap_cost = ALIGN_SIZE sizeof_struct_ring_buffer sizeof_void_p"

definition ring_buffer_node_cost :: "size_t \<Rightarrow> size_t" where
  "ring_buffer_node_cost l = ring_buffer_node_cost_inl l"

text \<open>
  \<^verbatim>\<open>ring_buffer_init\<close>: \<open>None\<close> is the \<^verbatim>\<open>NULL\<close> handle. The handle of the C code is
  the aligned start of the region; the model returns the header stored there. No node
  header has been written yet.
\<close>

definition ring_buffer_init :: "addr \<Rightarrow> size_t \<Rightarrow> ring_buffer option" where
  "ring_buffer_init buffer sz =
     (let rb = ALIGN_PTR buffer sizeof_void_p;
          leading_align_size = rb - buffer
      in if leading_align_size + ring_buffer_heap_cost \<ge> sz then None
         else Some (ring_buffer_reinit
                \<lparr>cache = rb + ring_buffer_heap_cost,
                 capacity = sz - leading_align_size - ring_buffer_heap_cost,
                 lost = 0,
                 HEAD = None, TAIL = None, oldest_reserve = None,
                 nodes = Map.empty\<rparr>))"

definition ring_buffer_exit :: "ring_buffer \<Rightarrow> int" where
  "ring_buffer_exit rb = 0"

definition ring_buffer_reserve :: "ring_buffer \<Rightarrow> size_t \<Rightarrow> c_int \<Rightarrow> (ptr \<times> ring_buffer) option" where
  "ring_buffer_reserve rb l flags =
     (let node_size = ring_buffer_node_cost_inl l
      in if TAIL rb = None then ring_buffer_reserve_empty rb l node_size
         else ring_buffer_reserve_none_empty rb l node_size flags)"

text \<open>
  \<^verbatim>\<open>ring_buffer_consume(rb, lost)\<close>. The out-parameter is the cell \<open>lost_p\<close>:
  \<open>None\<close> when the caller passes \<^verbatim>\<open>NULL\<close>, \<open>Some v\<close> when it points to a
  \<^verbatim>\<open>size_t\<close> holding \<open>v\<close>. The result is the token, the cell after the call, and the
  buffer.
\<close>

definition ring_buffer_consume ::
  "ring_buffer \<Rightarrow> size_t option \<Rightarrow> (ptr \<times> size_t option \<times> ring_buffer) option" where
  "ring_buffer_consume rb lost_p =
     (if oldest_reserve rb = None then Some (None, lost_p, rb)
      else do {
        r \<leftarrow> deref rb (oldest_reserve rb);
        if state r \<noteq> committed then Some (None, lost_p, rb)
        else do {
          let lost_p = (if lost_p \<noteq> None then Some (lost rb) else lost_p);
          let rb = rb\<lparr>lost := 0\<rparr>;
          token_node \<leftarrow> oldest_reserve rb;
          r \<leftarrow> deref rb (oldest_reserve rb);
          let rb = rb\<lparr>oldest_reserve := p_newer r\<rparr>;
          rb \<leftarrow> assign rb (Some token_node) (\<lambda>n. n\<lparr>state := reading\<rparr>);
          Some (Some (token_of token_node), lost_p, rb)
        }
      })"

text \<open>\<^verbatim>\<open>ring_buffer_commit\<close>; the token is a pointer the caller holds, \<open>None\<close> if \<^verbatim>\<open>NULL\<close>.\<close>

definition ring_buffer_commit :: "ring_buffer \<Rightarrow> ptr \<Rightarrow> c_int \<Rightarrow> (int \<times> ring_buffer) option" where
  "ring_buffer_commit rb token flags =
     do {
       t \<leftarrow> token;
       let node = CONTAINER_FOR t;
       n \<leftarrow> deref rb (Some node);
       if state n = writing
       then ring_buffer_commit_for_write rb node flags
       else ring_buffer_commit_for_consume rb node flags
     }"

text \<open>
  \<^verbatim>\<open>ring_buffer_foreach\<close>. The visitor \<open>cb\<close> is a function of the token address
  and the node state (its context argument is closed over); it does not touch the
  buffer. The loop follows \<^verbatim>\<open>p_newer\<close> links, which may form a cycle, so it
  takes fuel: \<open>None\<close> is undefined behaviour or fuel exhausted. Besides the returned
  \<^verbatim>\<open>counter\<close> the model returns the nodes the visitor was invoked on, in order.
\<close>

fun foreach_loop ::
  "nat \<Rightarrow> ring_buffer \<Rightarrow> (addr \<Rightarrow> ring_buffer_node_state \<Rightarrow> int) \<Rightarrow> ptr \<Rightarrow> int \<Rightarrow> addr list
     \<Rightarrow> (int \<times> addr list) option" where
  "foreach_loop 0 rb cb node counter visited = None"
| "foreach_loop (Suc fuel) rb cb node counter visited =
     (case node of
        None \<Rightarrow> Some (counter, visited)
      | Some a \<Rightarrow>
          (case nodes rb a of
             None \<Rightarrow> None
           | Some n \<Rightarrow>
               if cb (token_of a) (state n) < 0 then Some (counter, visited @ [a])
               else foreach_loop fuel rb cb (p_newer n) (counter + 1) (visited @ [a])))"

definition ring_buffer_foreach ::
  "nat \<Rightarrow> ring_buffer \<Rightarrow> (addr \<Rightarrow> ring_buffer_node_state \<Rightarrow> int) \<Rightarrow> (int \<times> addr list) option" where
  "ring_buffer_foreach fuel rb cb = foreach_loop fuel rb cb (TAIL rb) 0 []"


section \<open>Notions used to state the claims\<close>

text \<open>\<open>mapped rb a\<close>: a node header has been written at address \<open>a\<close>.\<close>

definition mapped :: "ring_buffer \<Rightarrow> addr \<Rightarrow> bool" where
  "mapped rb a \<longleftrightarrow> nodes rb a \<noteq> None"

text \<open>
  \<open>time_chain rb p ns\<close>: following \<^verbatim>\<open>p_newer\<close> links from \<open>p\<close> visits exactly the nodes
  \<open>ns\<close>, in this order, and then reaches \<^verbatim>\<open>NULL\<close>.
\<close>

primrec time_chain :: "ring_buffer \<Rightarrow> ptr \<Rightarrow> addr list \<Rightarrow> bool" where
  "time_chain rb p [] \<longleftrightarrow> p = None"
| "time_chain rb p (a # as) \<longleftrightarrow>
     p = Some a \<and> (case nodes rb a of None \<Rightarrow> False | Some n \<Rightarrow> time_chain rb (p_newer n) as)"

text \<open>What the visitor of \<^verbatim>\<open>ring_buffer_foreach\<close> returns on the node at \<open>a\<close>.\<close>

definition visit :: "ring_buffer \<Rightarrow> (addr \<Rightarrow> ring_buffer_node_state \<Rightarrow> int) \<Rightarrow> addr \<Rightarrow> int" where
  "visit rb cb a = cb (token_of a) (state (node_at rb a))"

text \<open>
  The eviction walk as the specification words it. \<open>overwrite_walk rb node_size acc a run\<close>:
  the walk that arrives at node \<open>a\<close> with \<open>acc\<close> bytes accumulated from the nodes before
  \<open>a\<close> covers the nodes \<open>run\<close>. It adds the cost of \<open>a\<close> and absorbs the position
  neighbour \<open>f\<close> of \<open>a\<close> when (i) the accumulated size is still below \<open>node_size\<close>,
  (ii) \<open>f\<close> is Committed, (iii) \<open>f\<close> is also the time-newer link of \<open>a\<close>, and (iv) \<open>f\<close>
  lies at a higher address than \<open>a\<close>; it ends at \<open>a\<close> when the accumulated size has
  reached \<open>node_size\<close> (\<open>enough\<close>) or when one of (ii) to (iv) fails (\<open>blocked\<close>).
\<close>

inductive overwrite_walk :: "ring_buffer \<Rightarrow> size_t \<Rightarrow> size_t \<Rightarrow> addr \<Rightarrow> addr list \<Rightarrow> bool"
  for rb :: ring_buffer and node_size :: size_t where
  enough:
    "nodes rb a = Some e \<Longrightarrow> \<not> acc + ring_buffer_node_cost (len e) < node_size \<Longrightarrow>
     overwrite_walk rb node_size acc a [a]"
| blocked:
    "nodes rb a = Some e \<Longrightarrow> acc + ring_buffer_node_cost (len e) < node_size \<Longrightarrow>
     p_forward e = Some f \<Longrightarrow> nodes rb f = Some m \<Longrightarrow>
     \<not> (state m = committed \<and> p_newer e = Some f \<and> a < f) \<Longrightarrow>
     overwrite_walk rb node_size acc a [a]"
| absorb:
    "nodes rb a = Some e \<Longrightarrow> acc + ring_buffer_node_cost (len e) < node_size \<Longrightarrow>
     p_forward e = Some f \<Longrightarrow> nodes rb f = Some m \<Longrightarrow>
     state m = committed \<Longrightarrow> p_newer e = Some f \<Longrightarrow> a < f \<Longrightarrow>
     overwrite_walk rb node_size (acc + ring_buffer_node_cost (len e)) f run \<Longrightarrow>
     overwrite_walk rb node_size acc a (a # run)"

code_pred overwrite_walk .

text \<open>The accumulated size of a run of nodes.\<close>

definition run_cost :: "ring_buffer \<Rightarrow> addr list \<Rightarrow> size_t" where
  "run_cost rb run = sum_list (map (\<lambda>a. ring_buffer_node_cost (len (node_at rb a))) run)"

section \<open>Concrete runs\<close>

text \<open>
  Runs of the public interface from \<^verbatim>\<open>ring_buffer_init\<close> on a region at address 4096.
  With 1024 bytes the cache starts at 4144 and holds 976 bytes; with 304 bytes it holds
  256 bytes. A record of 8 bytes costs 56 bytes, so the first three nodes lie at 4144,
  4200 and 4256 and their tokens at 4184, 4240 and 4296.
\<close>

text \<open>
  One record is written and handed to a reader; a second record is reserved while the
  first is still being read. The run reports \<^verbatim>\<open>oldest_reserve\<close>, \<^verbatim>\<open>HEAD\<close> and the
  state of the node at \<^verbatim>\<open>HEAD\<close>.
\<close>

definition run_reserve_among_readers :: "(ptr \<times> ptr \<times> ring_buffer_node_state) option" where
  "run_reserve_among_readers =
     do {
       rb \<leftarrow> ring_buffer_init 4096 1024;
       (tA, rb) \<leftarrow> ring_buffer_reserve rb 8 0;
       (r, rb) \<leftarrow> ring_buffer_commit rb tA 0;
       (t1, l, rb) \<leftarrow> ring_buffer_consume rb None;
       (tB, rb) \<leftarrow> ring_buffer_reserve rb 8 0;
       h \<leftarrow> deref rb (HEAD rb);
       Some (oldest_reserve rb, HEAD rb, state h)
     }"

text \<open>
  Records A and B are written; A is consumed and its reading token is discarded. The run
  reports the token of A, the token of B, the return value of the discard, the state of A
  and its \<^verbatim>\<open>p_newer\<close> link after it, \<^verbatim>\<open>oldest_reserve\<close> after it, and the token
  the next consume returns.
\<close>

definition run_consume_discard ::
  "(ptr \<times> ptr \<times> int \<times> ring_buffer_node_state \<times> ptr \<times> ptr \<times> ptr) option" where
  "run_consume_discard =
     do {
       rb \<leftarrow> ring_buffer_init 4096 1024;
       (tA, rb) \<leftarrow> ring_buffer_reserve rb 8 0;
       (r, rb) \<leftarrow> ring_buffer_commit rb tA 0;
       (tB, rb) \<leftarrow> ring_buffer_reserve rb 8 0;
       (r, rb) \<leftarrow> ring_buffer_commit rb tB 0;
       (t1, l, rb) \<leftarrow> ring_buffer_consume rb None;
       (r, rb) \<leftarrow> ring_buffer_commit rb t1 ring_buffer_flag_discard;
       a \<leftarrow> deref rb (map_option CONTAINER_FOR tA);
       let reserve_after_discard = oldest_reserve rb;
       (t2, l, rb) \<leftarrow> ring_buffer_consume rb None;
       Some (tA, tB, r, state a, p_newer a, reserve_after_discard, t2)
     }"

text \<open>
  Records A, B and C are written; A and B are consumed, the reading token of B is
  discarded, C is consumed, and then the reading token of A is discarded. The run reports
  the state and \<^verbatim>\<open>p_newer\<close> link of A, B and C before the last call, and the return
  value of the last call.
\<close>

definition run_discard_below_reader ::
  "((ring_buffer_node_state \<times> ptr) \<times> (ring_buffer_node_state \<times> ptr) \<times>
    (ring_buffer_node_state \<times> ptr) \<times> int) option" where
  "run_discard_below_reader =
     do {
       rb \<leftarrow> ring_buffer_init 4096 1024;
       (tA, rb) \<leftarrow> ring_buffer_reserve rb 8 0;
       (r, rb) \<leftarrow> ring_buffer_commit rb tA 0;
       (tB, rb) \<leftarrow> ring_buffer_reserve rb 8 0;
       (r, rb) \<leftarrow> ring_buffer_commit rb tB 0;
       (tC, rb) \<leftarrow> ring_buffer_reserve rb 8 0;
       (r, rb) \<leftarrow> ring_buffer_commit rb tC 0;
       (t1, l, rb) \<leftarrow> ring_buffer_consume rb None;
       (t2, l, rb) \<leftarrow> ring_buffer_consume rb None;
       (r, rb) \<leftarrow> ring_buffer_commit rb t2 ring_buffer_flag_discard;
       (t3, l, rb) \<leftarrow> ring_buffer_consume rb None;
       a \<leftarrow> deref rb (map_option CONTAINER_FOR tA);
       b \<leftarrow> deref rb (map_option CONTAINER_FOR tB);
       c \<leftarrow> deref rb (map_option CONTAINER_FOR tC);
       (r, rb) \<leftarrow> ring_buffer_commit rb t1 ring_buffer_flag_discard;
       Some ((state a, p_newer a), (state b, p_newer b), (state c, p_newer c), r)
     }"

text \<open>
  A and B are reserved in this order and confirmed in the opposite order, then two
  records are consumed. The run reports the tokens in the order of the write-confirms
  and in the order the consumes return them.
\<close>

definition run_commit_out_of_order :: "(ptr list \<times> ptr list) option" where
  "run_commit_out_of_order =
     do {
       rb \<leftarrow> ring_buffer_init 4096 1024;
       (tA, rb) \<leftarrow> ring_buffer_reserve rb 8 0;
       (tB, rb) \<leftarrow> ring_buffer_reserve rb 8 0;
       (r, rb) \<leftarrow> ring_buffer_commit rb tB 0;
       (r, rb) \<leftarrow> ring_buffer_commit rb tA 0;
       (t1, l, rb) \<leftarrow> ring_buffer_consume rb None;
       (t2, l, rb) \<leftarrow> ring_buffer_consume rb None;
       Some ([tB, tA], [t1, t2])
     }"

text \<open>A buffer holding one record, visited by a visitor that always returns \<open>-1\<close>.\<close>

definition run_foreach_stopped :: "(int \<times> addr list) option" where
  "run_foreach_stopped =
     do {
       rb \<leftarrow> ring_buffer_init 4096 1024;
       (tA, rb) \<leftarrow> ring_buffer_reserve rb 8 0;
       ring_buffer_foreach 5 rb (\<lambda>t s. - 1)
     }"

text \<open>The empty buffer with a cache of 256 bytes, and the same buffer holding one
  committed record of 8 bytes.\<close>

definition buffer_256 :: ring_buffer where
  "buffer_256 = \<lparr>cache = 4144, capacity = 256, lost = 0, HEAD = None, TAIL = None,
     oldest_reserve = None, nodes = Map.empty\<rparr>"

definition buffer_256_one :: ring_buffer where
  "buffer_256_one = \<lparr>cache = 4144, capacity = 256, lost = 0, HEAD = Some 4144,
     TAIL = Some 4144, oldest_reserve = Some 4144,
     nodes = [4144 \<mapsto> \<lparr>p_forward = Some 4144, p_backward = Some 4144, p_newer = None,
       p_older = None, state = committed, len = 8\<rparr>]\<rparr>"

text \<open>
  The buffer of 256 bytes after three records A (8 bytes), B (8 bytes) and C (80 bytes)
  were written and A was consumed and confirmed: B lies at 4200, C at 4256 up to 4384,
  \<^verbatim>\<open>HEAD\<close> is C and its position-forward neighbour is B, at a lower address. 16 bytes
  are free behind C and 56 bytes before B.
\<close>

definition buffer_256_wrapped :: ring_buffer where
  "buffer_256_wrapped = \<lparr>cache = 4144, capacity = 256, lost = 0, HEAD = Some 4256,
     TAIL = Some 4200, oldest_reserve = Some 4200,
     nodes = [
       4144 \<mapsto> \<lparr>p_forward = Some 4200, p_backward = Some 4256, p_newer = Some 4200,
         p_older = None, state = reading, len = 8\<rparr>,
       4200 \<mapsto> \<lparr>p_forward = Some 4256, p_backward = Some 4256, p_newer = Some 4256,
         p_older = None, state = committed, len = 8\<rparr>,
       4256 \<mapsto> \<lparr>p_forward = Some 4200, p_backward = Some 4200, p_newer = None,
         p_older = Some 4200, state = committed, len = 80\<rparr>]\<rparr>"

text \<open>
  The buffer of 256 bytes holding three committed records of 8 bytes at 4144, 4200 and
  4256, with 88 bytes free behind the last.
\<close>

definition buffer_256_three :: ring_buffer where
  "buffer_256_three = \<lparr>cache = 4144, capacity = 256, lost = 0, HEAD = Some 4256,
     TAIL = Some 4144, oldest_reserve = Some 4144,
     nodes = [
       4144 \<mapsto> \<lparr>p_forward = Some 4200, p_backward = Some 4256, p_newer = Some 4200,
         p_older = None, state = committed, len = 8\<rparr>,
       4200 \<mapsto> \<lparr>p_forward = Some 4256, p_backward = Some 4144, p_newer = Some 4256,
         p_older = Some 4144, state = committed, len = 8\<rparr>,
       4256 \<mapsto> \<lparr>p_forward = Some 4144, p_backward = Some 4200, p_newer = None,
         p_older = Some 4200, state = committed, len = 8\<rparr>]\<rparr>"

section \<open>Evaluation and frame lemmas\<close>

lemmas ring_buffer_defs =
  ring_buffer_init_def ring_buffer_reserve_def ring_buffer_commit_def ring_buffer_consume_def
  ring_buffer_foreach_def
  ring_buffer_reserve_empty_def ring_buffer_reserve_none_empty_def
  ring_buffer_reserve_overwrite_def overwrite_evict_def ring_buffer_insert_new_node_def
  ring_buffer_update_time_for_new_node_def ring_buffer_reinit_def
  ring_buffer_commit_for_write_def ring_buffer_commit_for_write_confirm_def
  ring_buffer_commit_for_write_discard_def ring_buffer_commit_for_consume_def
  ring_buffer_commit_for_consume_confirm_def ring_buffer_commit_for_consume_discard_def
  ring_buffer_delete_node_def ring_buffer_remove_head_def ring_buffer_remove_tail_def
  ring_buffer_remove_node_chain_pos_def
  assign_def store_def deref_def node_at_def uninit_node_def token_of_def CONTAINER_FOR_def
  ring_buffer_heap_cost_def ring_buffer_node_cost_def ring_buffer_node_cost_inl_def
  ALIGN_SIZE_def ALIGN_PTR_def
  sizeof_void_p_def sizeof_ring_buffer_node_t_def sizeof_struct_ring_buffer_def offsetof_token_def
  ring_buffer_flag_discard_def ring_buffer_flag_overwrite_def ring_buffer_flag_consume_on_error_def

lemma init_4096_304: "ring_buffer_init 4096 304 = Some buffer_256"
  by (simp add: ring_buffer_defs buffer_256_def)

lemma buffer_256_one_reached:
  "do {
     (t, rb) \<leftarrow> ring_buffer_reserve buffer_256 8 0;
     (r, rb) \<leftarrow> ring_buffer_commit rb t 0;
     Some rb
   } = Some buffer_256_one"
  by (simp add: ring_buffer_defs buffer_256_def buffer_256_one_def)

lemma reserve_empty_absent:
  "ring_buffer_reserve_empty rb l n = Some (None, rb') \<Longrightarrow> rb' = rb \<and> capacity rb < n"
  by (auto simp: ring_buffer_reserve_empty_def assign_def store_def Let_def split: if_splits)

lemma reserve_overwrite_absent:
  "ring_buffer_reserve_overwrite rb l n = Some (None, rb') \<Longrightarrow> rb' = rb"
  unfolding ring_buffer_reserve_overwrite_def overwrite_evict_def
  by (auto simp: bind_eq_Some_conv Let_def ring_buffer_reinit_def
      split: if_splits prod.splits dest!: reserve_empty_absent)

lemma reserve_none_empty_absent:
  "ring_buffer_reserve_none_empty rb l n flags = Some (None, rb') \<Longrightarrow> rb' = rb"
  unfolding ring_buffer_reserve_none_empty_def
  by (auto simp: bind_eq_Some_conv Let_def split: if_splits dest!: reserve_overwrite_absent)

lemma reserve_absent:
  "ring_buffer_reserve rb l flags = Some (None, rb') \<Longrightarrow> rb' = rb"
  unfolding ring_buffer_reserve_def
  by (auto simp: Let_def split: if_splits dest: reserve_none_empty_absent reserve_empty_absent)

lemma consume_absent:
  "ring_buffer_consume rb lost_p = Some (None, lost_p', rb') \<Longrightarrow> rb' = rb \<and> lost_p' = lost_p"
  unfolding ring_buffer_consume_def
  by (auto simp: bind_eq_Some_conv Let_def split: if_splits)

lemma buffer_256_wrapped_reached:
  "do {
     (tA, rb) \<leftarrow> ring_buffer_reserve buffer_256 8 0;
     (r, rb) \<leftarrow> ring_buffer_commit rb tA 0;
     (tB, rb) \<leftarrow> ring_buffer_reserve rb 8 0;
     (r, rb) \<leftarrow> ring_buffer_commit rb tB 0;
     (tC, rb) \<leftarrow> ring_buffer_reserve rb 80 0;
     (r, rb) \<leftarrow> ring_buffer_commit rb tC 0;
     (t, l, rb) \<leftarrow> ring_buffer_consume rb None;
     (r, rb) \<leftarrow> ring_buffer_commit rb t 0;
     Some rb
   } = Some buffer_256_wrapped"
  by (simp add: ring_buffer_defs buffer_256_def buffer_256_wrapped_def fun_eq_iff)

lemma buffer_256_three_reached:
  "do {
     (tA, rb) \<leftarrow> ring_buffer_reserve buffer_256 8 0;
     (r, rb) \<leftarrow> ring_buffer_commit rb tA 0;
     (tB, rb) \<leftarrow> ring_buffer_reserve rb 8 0;
     (r, rb) \<leftarrow> ring_buffer_commit rb tB 0;
     (tC, rb) \<leftarrow> ring_buffer_reserve rb 8 0;
     (r, rb) \<leftarrow> ring_buffer_commit rb tC 0;
     Some rb
   } = Some buffer_256_three"
  by (simp add: ring_buffer_defs buffer_256_def buffer_256_three_def fun_eq_iff)

subsection \<open>Reading and writing node fields\<close>

lemma if_Some_None_eq:
  "((if c then Some x else None) = Some y) \<longleftrightarrow> c \<and> x = y"
  "((if c then Some x else None) = None) \<longleftrightarrow> \<not> c"
  by auto

lemma nodes_eq_Some: "nodes rb a = Some n \<longleftrightarrow> mapped rb a \<and> node_at rb a = n"
  by (auto simp: mapped_def node_at_def)

lemma deref_Some [simp]: "deref rb (Some a) = (if mapped rb a then Some (node_at rb a) else None)"
  by (auto simp: deref_def mapped_def node_at_def)

lemma deref_None [simp]: "deref rb None = None"
  by (simp add: deref_def)

lemma assign_simps [simp]:
  "assign rb (Some a) f = Some (store rb a f)"
  "assign rb None f = None"
  by (simp_all add: assign_def)

lemma assign_eq_Some [simp]:
  "assign rb p f = Some rb' \<longleftrightarrow> (\<exists>a. p = Some a \<and> rb' = store rb a f)"
  by (cases p) auto

lemma store_header [simp]:
  "cache (store rb a f) = cache rb"
  "capacity (store rb a f) = capacity rb"
  "lost (store rb a f) = lost rb"
  "HEAD (store rb a f) = HEAD rb"
  "TAIL (store rb a f) = TAIL rb"
  "oldest_reserve (store rb a f) = oldest_reserve rb"
  by (simp_all add: store_def)

lemma mapped_store [simp]: "mapped (store rb a f) x \<longleftrightarrow> x = a \<or> mapped rb x"
  by (simp add: mapped_def store_def)

lemma mapped_header_upd [simp]:
  "mapped (rb\<lparr>lost := l\<rparr>) = mapped rb"
  "mapped (rb\<lparr>HEAD := p\<rparr>) = mapped rb"
  "mapped (rb\<lparr>TAIL := p\<rparr>) = mapped rb"
  "mapped (rb\<lparr>oldest_reserve := p\<rparr>) = mapped rb"
  by (simp_all add: mapped_def fun_eq_iff)

lemma node_at_header_upd [simp]:
  "node_at (rb\<lparr>lost := l\<rparr>) = node_at rb"
  "node_at (rb\<lparr>HEAD := p\<rparr>) = node_at rb"
  "node_at (rb\<lparr>TAIL := p\<rparr>) = node_at rb"
  "node_at (rb\<lparr>oldest_reserve := p\<rparr>) = node_at rb"
  by (simp_all add: node_at_def fun_eq_iff)

lemma store_header_upd [simp]:
  "store (rb\<lparr>lost := l\<rparr>) a f = (store rb a f)\<lparr>lost := l\<rparr>"
  "store (rb\<lparr>HEAD := p\<rparr>) a f = (store rb a f)\<lparr>HEAD := p\<rparr>"
  "store (rb\<lparr>TAIL := p\<rparr>) a f = (store rb a f)\<lparr>TAIL := p\<rparr>"
  "store (rb\<lparr>oldest_reserve := p\<rparr>) a f = (store rb a f)\<lparr>oldest_reserve := p\<rparr>"
  by (simp_all add: store_def node_at_def)

lemma node_at_store: "node_at (store rb a f) x = (if x = a then f (node_at rb a) else node_at rb x)"
  by (simp add: node_at_def store_def)

lemma store_p_forward [simp]:
  "p_forward (node_at (store rb a (p_forward_update g)) x) =
     (if x = a then g (p_forward (node_at rb a)) else p_forward (node_at rb x))"
  "p_forward (node_at (store rb a (p_backward_update g1)) x) = p_forward (node_at rb x)"
  "p_forward (node_at (store rb a (p_newer_update g1)) x) = p_forward (node_at rb x)"
  "p_forward (node_at (store rb a (p_older_update g1)) x) = p_forward (node_at rb x)"
  "p_forward (node_at (store rb a (state_update g2)) x) = p_forward (node_at rb x)"
  "p_forward (node_at (store rb a (len_update g3)) x) = p_forward (node_at rb x)"
  by (simp_all add: node_at_store)

lemma store_p_backward [simp]:
  "p_backward (node_at (store rb a (p_backward_update g)) x) =
     (if x = a then g (p_backward (node_at rb a)) else p_backward (node_at rb x))"
  "p_backward (node_at (store rb a (p_forward_update g1)) x) = p_backward (node_at rb x)"
  "p_backward (node_at (store rb a (p_newer_update g1)) x) = p_backward (node_at rb x)"
  "p_backward (node_at (store rb a (p_older_update g1)) x) = p_backward (node_at rb x)"
  "p_backward (node_at (store rb a (state_update g2)) x) = p_backward (node_at rb x)"
  "p_backward (node_at (store rb a (len_update g3)) x) = p_backward (node_at rb x)"
  by (simp_all add: node_at_store)

lemma store_p_newer [simp]:
  "p_newer (node_at (store rb a (p_newer_update g)) x) =
     (if x = a then g (p_newer (node_at rb a)) else p_newer (node_at rb x))"
  "p_newer (node_at (store rb a (p_forward_update g1)) x) = p_newer (node_at rb x)"
  "p_newer (node_at (store rb a (p_backward_update g1)) x) = p_newer (node_at rb x)"
  "p_newer (node_at (store rb a (p_older_update g1)) x) = p_newer (node_at rb x)"
  "p_newer (node_at (store rb a (state_update g2)) x) = p_newer (node_at rb x)"
  "p_newer (node_at (store rb a (len_update g3)) x) = p_newer (node_at rb x)"
  by (simp_all add: node_at_store)

lemma store_p_older [simp]:
  "p_older (node_at (store rb a (p_older_update g)) x) =
     (if x = a then g (p_older (node_at rb a)) else p_older (node_at rb x))"
  "p_older (node_at (store rb a (p_forward_update g1)) x) = p_older (node_at rb x)"
  "p_older (node_at (store rb a (p_backward_update g1)) x) = p_older (node_at rb x)"
  "p_older (node_at (store rb a (p_newer_update g1)) x) = p_older (node_at rb x)"
  "p_older (node_at (store rb a (state_update g2)) x) = p_older (node_at rb x)"
  "p_older (node_at (store rb a (len_update g3)) x) = p_older (node_at rb x)"
  by (simp_all add: node_at_store)

lemma store_state [simp]:
  "state (node_at (store rb a (state_update g)) x) =
     (if x = a then g (state (node_at rb a)) else state (node_at rb x))"
  "state (node_at (store rb a (p_forward_update g1)) x) = state (node_at rb x)"
  "state (node_at (store rb a (p_backward_update g1)) x) = state (node_at rb x)"
  "state (node_at (store rb a (p_newer_update g1)) x) = state (node_at rb x)"
  "state (node_at (store rb a (p_older_update g1)) x) = state (node_at rb x)"
  "state (node_at (store rb a (len_update g3)) x) = state (node_at rb x)"
  by (simp_all add: node_at_store)

lemma store_len [simp]:
  "len (node_at (store rb a (len_update g)) x) =
     (if x = a then g (len (node_at rb a)) else len (node_at rb x))"
  "len (node_at (store rb a (p_forward_update g1)) x) = len (node_at rb x)"
  "len (node_at (store rb a (p_backward_update g1)) x) = len (node_at rb x)"
  "len (node_at (store rb a (p_newer_update g1)) x) = len (node_at rb x)"
  "len (node_at (store rb a (p_older_update g1)) x) = len (node_at rb x)"
  "len (node_at (store rb a (state_update g2)) x) = len (node_at rb x)"
  by (simp_all add: node_at_store)

subsection \<open>The eviction loop and the walk\<close>

declare overwrite_loop.simps [simp del]

lemma overwrite_walk_nonempty: "overwrite_walk rb nsz acc a run \<Longrightarrow> run \<noteq> [] \<and> hd run = a"
  by (induction rule: overwrite_walk.induct) auto

lemma overwrite_loop_of_walk:
  "overwrite_walk rb nsz acc a run \<Longrightarrow>
   overwrite_loop rb nsz acc k a = Some (acc + run_cost rb run, k + of_nat (length run) - 1, last run)"
proof (induction arbitrary: k rule: overwrite_walk.induct)
  case (enough a e acc)
  then show ?case
    by (subst overwrite_loop.simps) (simp add: run_cost_def node_at_def ring_buffer_node_cost_def)
next
  case (blocked a e acc f m)
  then show ?case
    by (subst overwrite_loop.simps) (auto simp: run_cost_def node_at_def ring_buffer_node_cost_def)
next
  case (absorb a e acc f m run)
  from absorb.hyps have ne: "run \<noteq> []" by (auto dest: overwrite_walk_nonempty)
  show ?case
    using absorb.hyps(1-7) absorb.IH [of "k + 1"] ne
    by (subst overwrite_loop.simps)
       (simp add: run_cost_def node_at_def ring_buffer_node_cost_def add.assoc)
qed

lemma overwrite_walk_of_loop:
  "overwrite_loop rb nsz acc k a = Some r \<Longrightarrow> \<exists>run. overwrite_walk rb nsz acc a run"
proof (induction rb nsz acc k a arbitrary: r rule: overwrite_loop.induct)
  case (1 rb node_size sum_size lost_node node_end)
  from "1.prems" obtain e where e: "nodes rb node_end = Some e"
    by (subst (asm) overwrite_loop.simps) (auto split: option.splits)
  show ?case
  proof (cases "sum_size + ring_buffer_node_cost_inl (len e) < node_size")
    case False
    with e show ?thesis
      by (auto intro!: exI overwrite_walk.enough simp: ring_buffer_node_cost_def)
  next
    case True
    with "1.prems" e obtain f m where f: "p_forward e = Some f" "nodes rb f = Some m"
      by (subst (asm) overwrite_loop.simps) (auto split: option.splits)
    show ?thesis
    proof (cases "state m = committed \<and> p_forward e = p_newer e \<and> node_end < f")
      case False
      with e True f show ?thesis
        by (auto intro!: exI overwrite_walk.blocked [where f = f] simp: ring_buffer_node_cost_def)
    next
      case c: True
      with "1.prems" e True f obtain r' where
        "overwrite_loop rb node_size (sum_size + ring_buffer_node_cost_inl (len e)) (lost_node + 1) f = Some r'"
        by (subst (asm) overwrite_loop.simps) auto
      from "1.IH" [OF e _ f(1) f(2) c this] True
      obtain run where "overwrite_walk rb node_size (sum_size + ring_buffer_node_cost_inl (len e)) f run"
        by auto
      with e True f c show ?thesis
        by (auto intro!: exI overwrite_walk.absorb [where f = f] simp: ring_buffer_node_cost_def)
    qed
  qed
qed

lemma overwrite_loop_result:
  assumes "overwrite_loop rb nsz acc k a = Some (sum_size, lost_node, node_end)"
  shows "\<exists>run. overwrite_walk rb nsz acc a run \<and> sum_size = acc + run_cost rb run \<and>
           lost_node = k + of_nat (length run) - 1 \<and> node_end = last run"
proof -
  from overwrite_walk_of_loop [OF assms] obtain run where run: "overwrite_walk rb nsz acc a run" ..
  from overwrite_loop_of_walk [OF run, of k] assms run show ?thesis by auto
qed

subsection \<open>The results of overwrite\<close>

lemma overwrite_evict_lost:
  "overwrite_evict rb s e k l = Some (t, rb') \<Longrightarrow> t = Some (token_of s) \<and> lost rb' = lost rb + k"
  unfolding overwrite_evict_def ring_buffer_update_time_for_new_node_def
  by (auto simp: bind_eq_Some_conv Let_def split: if_splits)

lemma overwrite_evict_result:
  assumes "mapped rb s" "mapped rb e" "p_newer (node_at rb e) = Some w"
    "p_forward (node_at rb e) = Some f" "HEAD rb = Some h"
  shows "\<exists>rb'. overwrite_evict rb s e k l = Some (Some (token_of s), rb') \<and>
           HEAD rb' = Some s \<and> oldest_reserve rb' = Some w \<and>
           mapped rb' s \<and> len (node_at rb' s) = l \<and> p_forward (node_at rb' s) = Some f \<and>
           lost rb' = lost rb + k"
proof (cases "p_older (node_at rb s)")
  case None
  with assms show ?thesis
    unfolding overwrite_evict_def ring_buffer_update_time_for_new_node_def
    by (auto simp: Let_def)
next
  case (Some o')
  with assms show ?thesis
    unfolding overwrite_evict_def ring_buffer_update_time_for_new_node_def
    by (auto simp: Let_def)
qed

lemma overwrite_not_sole:
  assumes "oldest_reserve rb = Some s" "nodes rb s = Some sn" "state sn = committed"
    "\<not> (p_forward sn = Some s \<and> p_backward sn = Some s)"
  shows "ring_buffer_reserve_overwrite rb l node_size =
           (case overwrite_loop rb node_size 0 1 s of
              None \<Rightarrow> None
            | Some (sum_size, lost_node, node_end) \<Rightarrow>
                if sum_size < node_size then Some (None, rb)
                else overwrite_evict rb s node_end lost_node l)"
  using assms unfolding ring_buffer_reserve_overwrite_def
  by (auto simp: nodes_eq_Some split: option.splits)

lemma overwrite_evicts:
  assumes "oldest_reserve rb = Some s" "nodes rb s = Some sn" "state sn = committed"
    "\<not> (p_forward sn = Some s \<and> p_backward sn = Some s)"
    "overwrite_walk rb node_size 0 s run" "\<not> run_cost rb run < node_size"
    "nodes rb (last run) = Some en" "p_newer en = Some w" "p_forward en = Some f"
    "HEAD rb = Some h"
  shows "\<exists>rb' n. ring_buffer_reserve_overwrite rb l node_size = Some (Some (token_of s), rb') \<and>
           HEAD rb' = Some s \<and> oldest_reserve rb' = Some w \<and>
           nodes rb' s = Some n \<and> len n = l \<and> p_forward n = Some f \<and>
           lost rb' = lost rb + of_nat (length run)"
proof -
  have loop: "overwrite_loop rb node_size 0 1 s = Some (run_cost rb run, of_nat (length run), last run)"
    using overwrite_loop_of_walk [OF assms(5), of 1] by simp
  have "mapped rb s" "mapped rb (last run)" "p_newer (node_at rb (last run)) = Some w"
    "p_forward (node_at rb (last run)) = Some f"
    using assms(2,7-9) by (auto simp: nodes_eq_Some)
  from overwrite_evict_result [OF this assms(10), of "of_nat (length run)" l]
  show ?thesis
    using assms(6) loop by (auto simp: overwrite_not_sole [OF assms(1-4)] nodes_eq_Some)
qed

lemma overwrite_walk_fails:
  assumes "oldest_reserve rb = Some s" "nodes rb s = Some sn" "state sn = committed"
    "\<not> (p_forward sn = Some s \<and> p_backward sn = Some s)"
    "overwrite_walk rb node_size 0 s run" "run_cost rb run < node_size"
  shows "ring_buffer_reserve_overwrite rb l node_size = Some (None, rb)"
proof -
  have loop: "overwrite_loop rb node_size 0 1 s = Some (run_cost rb run, of_nat (length run), last run)"
    using overwrite_loop_of_walk [OF assms(5), of 1] by simp
  show ?thesis
    using assms(6) loop by (simp add: overwrite_not_sole [OF assms(1-4)])
qed

lemma overwrite_sole:
  assumes "oldest_reserve rb = Some s" "nodes rb s = Some sn" "state sn = committed"
    "p_forward sn = Some s \<and> p_backward sn = Some s"
  shows "if node_size \<le> capacity rb
         then \<exists>rb' n. ring_buffer_reserve_overwrite rb l node_size =
                  Some (Some (token_of (cache rb)), rb') \<and>
                HEAD rb' = Some (cache rb) \<and> TAIL rb' = Some (cache rb) \<and>
                oldest_reserve rb' = Some (cache rb) \<and>
                nodes rb' (cache rb) = Some n \<and> state n = writing \<and> len n = l \<and>
                lost rb' = lost rb + 1
         else ring_buffer_reserve_overwrite rb l node_size = Some (None, rb)"
  using assms
  unfolding ring_buffer_reserve_overwrite_def ring_buffer_reserve_empty_def ring_buffer_reinit_def
  by (auto simp: nodes_eq_Some Let_def)

lemma overwrite_not_committed:
  "oldest_reserve rb = None \<Longrightarrow> ring_buffer_reserve_overwrite rb l node_size = Some (None, rb)"
  "oldest_reserve rb = Some s \<Longrightarrow> nodes rb s = Some sn \<Longrightarrow> state sn \<noteq> committed \<Longrightarrow>
     ring_buffer_reserve_overwrite rb l node_size = Some (None, rb)"
  unfolding ring_buffer_reserve_overwrite_def
  by (auto simp: nodes_eq_Some)

lemma overwrite_lost:
  assumes "ring_buffer_reserve_overwrite rb l node_size = Some (Some tok, rb')"
    "oldest_reserve rb = Some s" "nodes rb s = Some sn"
  shows "if p_forward sn = Some s \<and> p_backward sn = Some s then lost rb' = lost rb + 1
         else \<exists>run. overwrite_walk rb node_size 0 s run \<and> lost rb' = lost rb + of_nat (length run)"
proof -
  have c: "state sn = committed"
    using assms unfolding ring_buffer_reserve_overwrite_def
    by (auto simp: nodes_eq_Some split: if_splits)
  show ?thesis
  proof (cases "p_forward sn = Some s \<and> p_backward sn = Some s")
    case True
    from overwrite_sole [OF assms(2,3) c True, of node_size l] assms(1) True
    show ?thesis by (auto split: if_splits)
  next
    case False
    from assms(1) obtain sum_size lost_node node_end where
      loop: "overwrite_loop rb node_size 0 1 s = Some (sum_size, lost_node, node_end)"
      and ev: "overwrite_evict rb s node_end lost_node l = Some (Some tok, rb')"
      by (auto simp: overwrite_not_sole [OF assms(2,3) c False] split: option.splits if_splits)
    from overwrite_loop_result [OF loop] overwrite_evict_lost [OF ev] False
    show ?thesis by auto
  qed
qed

subsection \<open>Frame lemmas for the lost counter\<close>

lemma remove_node_chain_pos_lost:
  "ring_buffer_remove_node_chain_pos rb p = Some rb' \<Longrightarrow> lost rb' = lost rb"
  unfolding ring_buffer_remove_node_chain_pos_def
  by (auto simp: bind_eq_Some_conv if_Some_None_eq)

lemma remove_tail_lost:
  "ring_buffer_remove_tail rb = Some rb' \<Longrightarrow> lost rb' = lost rb"
  unfolding ring_buffer_remove_tail_def
  by (clarsimp simp: bind_eq_Some_conv if_Some_None_eq Let_def dest!: remove_node_chain_pos_lost)

lemma remove_head_lost:
  "ring_buffer_remove_head rb = Some rb' \<Longrightarrow> lost rb' = lost rb"
  unfolding ring_buffer_remove_head_def
  by (clarsimp simp: bind_eq_Some_conv if_Some_None_eq Let_def dest!: remove_node_chain_pos_lost)

lemma delete_node_lost:
  assumes "ring_buffer_delete_node rb a = Some rb'"
  shows "lost rb' = lost rb"
proof -
  from assms have m: "mapped rb a"
    unfolding ring_buffer_delete_node_def by (simp add: bind_eq_Some_conv if_Some_None_eq)
  show ?thesis
  proof (cases "p_backward (node_at rb a) = Some a \<and> p_forward (node_at rb a) = Some a")
    case True
    with assms m show ?thesis
      unfolding ring_buffer_delete_node_def by (auto simp: ring_buffer_reinit_def if_Some_None_eq)
  next
    case sole: False
    show ?thesis
    proof (cases "p_older (node_at rb a) = None")
      case True
      with assms m sole have "ring_buffer_remove_tail rb = Some rb'"
        unfolding ring_buffer_delete_node_def by (simp add: if_Some_None_eq)
      then show ?thesis by (rule remove_tail_lost)
    next
      case older: False
      show ?thesis
      proof (cases "p_newer (node_at rb a) = None")
        case True
        with assms m sole older have "ring_buffer_remove_head rb = Some rb'"
          unfolding ring_buffer_delete_node_def by (simp add: if_Some_None_eq)
        then show ?thesis by (rule remove_head_lost)
      next
        case False
        with assms m sole older show ?thesis
          unfolding ring_buffer_delete_node_def
          by (clarsimp simp: bind_eq_Some_conv if_Some_None_eq dest!: remove_node_chain_pos_lost)
      qed
    qed
  qed
qed

lemma commit_lost:
  assumes "ring_buffer_commit rb token flags = Some (r, rb')"
  shows "lost rb' = lost rb"
proof -
  from assms obtain t where t: "token = Some t" "mapped rb (CONTAINER_FOR t)"
    unfolding ring_buffer_commit_def by (auto simp: bind_eq_Some_conv if_Some_None_eq Let_def)
  let ?a = "CONTAINER_FOR t"
  from assms t have
    "ring_buffer_delete_node rb ?a = Some rb' \<or> rb' = store rb ?a (state_update (\<lambda>_. committed)) \<or>
     rb' = rb \<or> rb' = (store rb ?a (state_update (\<lambda>_. committed)))\<lparr>oldest_reserve := Some ?a\<rparr>"
    unfolding ring_buffer_commit_def ring_buffer_commit_for_write_def
      ring_buffer_commit_for_consume_def ring_buffer_commit_for_write_confirm_def
      ring_buffer_commit_for_write_discard_def ring_buffer_commit_for_consume_confirm_def
      ring_buffer_commit_for_consume_discard_def
    by (auto simp: bind_eq_Some_conv if_Some_None_eq Let_def split: if_splits)
  then show ?thesis by (auto dest: delete_node_lost)
qed

lemma insert_new_node_result:
  assumes "HEAD rb = Some h" "nodes rb h = Some hn" "p_forward hn = Some f"
  shows "\<exists>rb' n. ring_buffer_insert_new_node rb a l = Some rb' \<and> HEAD rb' = Some a \<and>
           nodes rb' a = Some n \<and> state n = writing \<and> len n = l \<and>
           TAIL rb' = TAIL rb \<and> oldest_reserve rb' = oldest_reserve rb \<and>
           lost rb' = lost rb \<and> cache rb' = cache rb \<and> capacity rb' = capacity rb"
  using assms
  by (auto simp: ring_buffer_insert_new_node_def ring_buffer_update_time_for_new_node_def
      nodes_eq_Some)

lemma insert_new_node_lost:
  "ring_buffer_insert_new_node rb a l = Some rb' \<Longrightarrow> lost rb' = lost rb"
  unfolding ring_buffer_insert_new_node_def ring_buffer_update_time_for_new_node_def
  by (auto simp: bind_eq_Some_conv split: if_splits)

lemma consume_committed:
  assumes "oldest_reserve rb = Some s" "nodes rb s = Some sn" "state sn = committed"
  shows "\<exists>rb' n. ring_buffer_consume rb lost_p =
             Some (Some (token_of s), (if lost_p = None then None else Some (lost rb)), rb') \<and>
           lost rb' = 0 \<and> oldest_reserve rb' = p_newer sn \<and>
           nodes rb' s = Some n \<and> state n = reading"
  using assms unfolding ring_buffer_consume_def
  by (auto simp: nodes_eq_Some Let_def)

lemma consume_lost:
  "ring_buffer_consume rb lost_p = Some (Some tok, lost_p', rb') \<Longrightarrow>
     lost rb' = 0 \<and> lost_p' = (if lost_p = None then None else Some (lost rb))"
  unfolding ring_buffer_consume_def
  by (auto simp: bind_eq_Some_conv Let_def split: if_splits)

lemma foreach_loop_chain:
  "time_chain rb p ns \<Longrightarrow> length ns < fuel \<Longrightarrow>
   foreach_loop fuel rb cb p c vs =
     Some (c + int (length (takeWhile (\<lambda>a. 0 \<le> visit rb cb a) ns)),
           vs @ take (Suc (length (takeWhile (\<lambda>a. 0 \<le> visit rb cb a) ns))) ns)"
proof (induction ns arbitrary: fuel p c vs)
  case Nil
  then show ?case by (cases fuel) simp_all
next
  case (Cons a as)
  then obtain k where k: "fuel = Suc k" by (cases fuel) simp_all
  from Cons.prems obtain n where n: "p = Some a" "nodes rb a = Some n" "time_chain rb (p_newer n) as"
    by (auto split: option.splits)
  show ?case
  proof (cases "cb (token_of a) (state n) < 0")
    case True
    with k n show ?thesis by (simp add: visit_def node_at_def)
  next
    case False
    have "length as < k" using Cons.prems k by simp
    from Cons.IH [OF n(3) this, of "c + 1" "vs @ [a]"] False k n
    show ?thesis by (simp add: visit_def node_at_def)
  qed
qed

lemma reserve_none_empty_cases:
  assumes "ring_buffer_reserve_none_empty rb l n flags = Some (t, rb')"
  shows "(\<exists>a. ring_buffer_insert_new_node rb a l = Some rb' \<and> t = Some (token_of a)) \<or>
         (flags AND ring_buffer_flag_overwrite \<noteq> 0 \<and>
            ring_buffer_reserve_overwrite rb l n = Some (t, rb')) \<or>
         (t = None \<and> rb' = rb)"
proof -
  from assms obtain head fwd where h: "HEAD rb = Some head" "mapped rb head"
    "p_forward (node_at rb head) = Some fwd"
    unfolding ring_buffer_reserve_none_empty_def
    by (auto simp: bind_eq_Some_conv if_Some_None_eq Let_def)
  from assms h show ?thesis
    unfolding ring_buffer_reserve_none_empty_def
    by (simp add: Let_def bind_eq_Some_conv split: if_splits) blast+
qed

lemma reserve_lost:
  assumes "ring_buffer_reserve rb l flags = Some (t, rb')"
  shows "lost rb' = lost rb \<or>
         (t \<noteq> None \<and> TAIL rb \<noteq> None \<and> flags AND ring_buffer_flag_overwrite \<noteq> 0 \<and>
          ring_buffer_reserve_overwrite rb l (ring_buffer_node_cost l) = Some (t, rb'))"
proof (cases "TAIL rb")
  case None
  with assms show ?thesis
    by (auto simp: ring_buffer_reserve_def ring_buffer_reserve_empty_def Let_def
        split: if_splits)
next
  case (Some a)
  with assms have "ring_buffer_reserve_none_empty rb l (ring_buffer_node_cost l) flags = Some (t, rb')"
    by (simp add: ring_buffer_reserve_def ring_buffer_node_cost_def)
  from reserve_none_empty_cases [OF this] Some show ?thesis
    by (cases t) (auto dest: insert_new_node_lost reserve_overwrite_absent)
qed

subsection \<open>Facts about the concrete buffers\<close>

lemma walk_three: "overwrite_walk buffer_256_three 96 0 4144 [4144, 4200]"
  by (rule overwrite_walk.absorb [where f = 4200] overwrite_walk.enough
      | simp add: buffer_256_three_def ring_buffer_defs)+

lemma overwrite_three_result:
  "ring_buffer_reserve_overwrite buffer_256_three 48 96 =
     Some (Some 4184, snd (the (ring_buffer_reserve_overwrite buffer_256_three 48 96)))"
proof -
  have "ring_buffer_reserve_overwrite buffer_256_three 48 96 \<noteq> None"
    by code_simp
  moreover have "fst (the (ring_buffer_reserve_overwrite buffer_256_three 48 96)) = Some 4184"
    by code_simp
  ultimately show ?thesis
    by (cases "ring_buffer_reserve_overwrite buffer_256_three 48 96") auto
qed
section \<open>Claims\<close>

subsection \<open>C1: the position of \<^verbatim>\<open>oldest_reserve\<close>\<close>

text \<open>
  C1 states that after every operation \<^verbatim>\<open>oldest_reserve\<close>, when present, is the
  temporally oldest node that is Writing or Committed, and that a reserve into a
  non-empty buffer whose nodes are all Reading makes \<^verbatim>\<open>oldest_reserve\<close> point at the new
  Writing node. In the run below the buffer holds one Reading node when the second record
  is reserved. Afterwards the node at \<^verbatim>\<open>HEAD\<close> (address 4200) is Writing, and
  \<^verbatim>\<open>oldest_reserve\<close> is still \<^verbatim>\<open>NULL\<close>: \<^verbatim>\<open>_ring_buffer_insert_new_node\<close> never
  assigns it.
\<close>

theorem reserve_among_readers_leaves_oldest_reserve_null:
  "run_reserve_among_readers = Some (None, Some 4200, writing)"
  by (simp add: run_reserve_among_readers_def ring_buffer_defs)

subsection \<open>C3: discarding a reading token\<close>

text \<open>
  C3 states that a legal consume-discard returns the node to Committed and moves
  \<^verbatim>\<open>oldest_reserve\<close> back to it when it is older than \<^verbatim>\<open>oldest_reserve\<close>, so that the
  next consume yields the same node. In the run below A (token 4184) is consumed and
  discarded while B (token 4240, node 4200) is Committed. The discard returns 0 and A is
  Committed again with B as its newer neighbour, but \<^verbatim>\<open>oldest_reserve\<close> stays at B, and
  the next consume returns the token of B.
\<close>

theorem consume_discard_does_not_move_oldest_reserve_back:
  "run_consume_discard =
     Some (Some 4184, Some 4240, 0, committed, Some 4200, Some 4200, Some 4240)"
  by (simp add: run_consume_discard_def ring_buffer_defs)

subsection \<open>C4: the error return of consume-discard\<close>

text \<open>
  C4 states that a discard of a reading token returns non-zero exactly when some
  temporally newer node is Reading and \<^verbatim>\<open>CONSUME_ON_ERROR\<close> is not set. In the run below
  the time chain is A (Reading), B (Committed), C (Reading) when the reading token of A
  is discarded without \<^verbatim>\<open>CONSUME_ON_ERROR\<close>; the call returns 0.
\<close>

theorem consume_discard_succeeds_below_newer_reader:
  "run_discard_below_reader =
     Some ((reading, Some 4200), (committed, Some 4256), (reading, None), 0)"
  by (simp add: run_discard_below_reader_def ring_buffer_defs)

subsection \<open>C6: the size check of init\<close>

text \<open>
  C6 states that init on a region of exactly \<^verbatim>\<open>heap_cost() + node_cost(0) - 1\<close> bytes
  returns an absent handle. On an aligned region of that size init returns a handle.
\<close>

theorem init_accepts_region_below_one_node:
  "ring_buffer_init 4096 (ring_buffer_heap_cost + ring_buffer_node_cost 0 - 1) \<noteq> None"
  by (simp add: ring_buffer_defs)

text \<open>
  C6 as amended: init returns an absent handle exactly when the region is not larger than
  the alignment padding plus \<^verbatim>\<open>heap_cost()\<close>; otherwise it returns an empty buffer
  whose cache holds the bytes that remain after the padding and the header.
\<close>

theorem init_succeeds_iff_region_exceeds_header:
  "(case ring_buffer_init buffer sz of
      None \<Rightarrow> sz \<le> (ALIGN_PTR buffer sizeof_void_p - buffer) + ring_buffer_heap_cost
    | Some rb \<Rightarrow>
        (ALIGN_PTR buffer sizeof_void_p - buffer) + ring_buffer_heap_cost < sz \<and>
        cache rb = ALIGN_PTR buffer sizeof_void_p + ring_buffer_heap_cost \<and>
        capacity rb = sz - (ALIGN_PTR buffer sizeof_void_p - buffer) - ring_buffer_heap_cost \<and>
        lost rb = 0 \<and> HEAD rb = None \<and> TAIL rb = None \<and> oldest_reserve rb = None)"
  by (simp add: ring_buffer_init_def ring_buffer_reinit_def Let_def not_le)

subsection \<open>C10: failed calls\<close>

text \<open>
  C10: whenever reserve or consume returns an absent token, the buffer is unchanged:
  the header fields and every node are as before the call (and consume leaves the
  out-parameter as it was).
\<close>

theorem failed_reserve_or_consume_changes_nothing:
  "(ring_buffer_reserve rb l flags = Some (None, rb') \<longrightarrow> rb' = rb) \<and>
   (ring_buffer_consume rb lost_p = Some (None, lost_p', rb'') \<longrightarrow> rb'' = rb \<and> lost_p' = lost_p)"
  by (auto dest: reserve_absent consume_absent)

theorem failed_reserve_or_consume_witness:
  "ring_buffer_reserve buffer_256_one 1000 0 = Some (None, buffer_256_one) \<and>
   ring_buffer_consume buffer_256 (Some 7) = Some (None, Some 7, buffer_256)"
  using failed_reserve_or_consume_changes_nothing
    [of buffer_256_one 1000 0 buffer_256_one "Some 7" "Some 7" buffer_256_one]
    failed_reserve_or_consume_changes_nothing
    [of buffer_256 1000 0 buffer_256 "Some 7" "Some 7" buffer_256]
  by (simp add: ring_buffer_defs buffer_256_def buffer_256_one_def)

subsection \<open>C5: the eviction walk of overwrite\<close>

text \<open>
  C5 states that, once \<^verbatim>\<open>oldest_reserve\<close> is present and Committed, overwrite evicts
  exactly when the walk ends with an accumulated size of at least \<^verbatim>\<open>node_size\<close>, and
  that reserve returns absent otherwise. In the buffer of 256 bytes that holds one
  committed record of 8 bytes (56 bytes with its header), a reserve of 200 bytes
  (\<^verbatim>\<open>node_size\<close> 248) with \<^verbatim>\<open>OVERWRITE\<close> finds no gap. The walk from the only node
  ends there with 56 bytes accumulated, below 248, yet reserve returns the token at the
  start of the cache: the sole node is a case of its own, decided by the capacity.
\<close>

theorem sole_node_overwrite_ignores_walk:
  "overwrite_walk buffer_256_one (ring_buffer_node_cost 200) 0 4144 [4144] \<and>
   run_cost buffer_256_one [4144] < ring_buffer_node_cost 200 \<and>
   map_option fst (ring_buffer_reserve buffer_256_one 200 ring_buffer_flag_overwrite) =
     Some (Some 4184)"
proof (intro conjI)
  show "overwrite_walk buffer_256_one (ring_buffer_node_cost 200) 0 4144 [4144]"
    by (rule overwrite_walk.blocked [where f = 4144])
       (simp add: buffer_256_one_def ring_buffer_defs)+
  show "run_cost buffer_256_one [4144] < ring_buffer_node_cost 200"
    by (simp add: run_cost_def buffer_256_one_def ring_buffer_defs)
  show "map_option fst (ring_buffer_reserve buffer_256_one 200 ring_buffer_flag_overwrite) =
     Some (Some 4184)"
    by (simp add: buffer_256_one_def ring_buffer_defs)
qed

text \<open>
  C5 as amended. Overwrite returns absent when \<^verbatim>\<open>oldest_reserve\<close> is absent or not
  Committed. When \<^verbatim>\<open>oldest_reserve\<close> is the sole node, it is evicted and the new node
  is placed at the start of the cache exactly when \<^verbatim>\<open>node_size\<close> is at most the
  capacity, whatever the walk would accumulate. Otherwise the walk from
  \<^verbatim>\<open>oldest_reserve\<close> decides: reserve returns absent, with the buffer unchanged, when
  the walk ends with an accumulated size below \<^verbatim>\<open>node_size\<close>; when it ends with at least
  \<^verbatim>\<open>node_size\<close> and the last node of the run has a time-newer node, the run is evicted,
  its first node is reused as the new token and becomes \<^verbatim>\<open>HEAD\<close>, \<^verbatim>\<open>oldest_reserve\<close>
  moves to the node after the run, and \<^verbatim>\<open>lost\<close> grows by the length of the run.
\<close>

theorem overwrite_walk_decides_eviction:
  "(oldest_reserve rb = None \<longrightarrow>
      ring_buffer_reserve_overwrite rb l node_size = Some (None, rb)) \<and>
   (\<forall>s sn. oldest_reserve rb = Some s \<and> nodes rb s = Some sn \<longrightarrow>
      (state sn \<noteq> committed \<longrightarrow>
         ring_buffer_reserve_overwrite rb l node_size = Some (None, rb)) \<and>
      (state sn = committed \<and> p_forward sn = Some s \<and> p_backward sn = Some s \<longrightarrow>
         (if node_size \<le> capacity rb
          then \<exists>rb' n. ring_buffer_reserve_overwrite rb l node_size =
                   Some (Some (token_of (cache rb)), rb') \<and>
                 HEAD rb' = Some (cache rb) \<and> TAIL rb' = Some (cache rb) \<and>
                 oldest_reserve rb' = Some (cache rb) \<and>
                 nodes rb' (cache rb) = Some n \<and> state n = writing \<and> len n = l \<and>
                 lost rb' = lost rb + 1
          else ring_buffer_reserve_overwrite rb l node_size = Some (None, rb))) \<and>
      (state sn = committed \<and> \<not> (p_forward sn = Some s \<and> p_backward sn = Some s) \<longrightarrow>
         (\<forall>run. overwrite_walk rb node_size 0 s run \<longrightarrow>
            (run_cost rb run < node_size \<longrightarrow>
               ring_buffer_reserve_overwrite rb l node_size = Some (None, rb)) \<and>
            (\<not> run_cost rb run < node_size \<longrightarrow>
               (\<forall>en w f h. nodes rb (last run) = Some en \<and> p_newer en = Some w \<and>
                    p_forward en = Some f \<and> HEAD rb = Some h \<longrightarrow>
                  (\<exists>rb' n. ring_buffer_reserve_overwrite rb l node_size =
                       Some (Some (token_of s), rb') \<and>
                     HEAD rb' = Some s \<and> oldest_reserve rb' = Some w \<and>
                     nodes rb' s = Some n \<and> len n = l \<and> p_forward n = Some f \<and>
                     lost rb' = lost rb + of_nat (length run)))))))"
proof (intro conjI allI impI; (elim conjE)?)
  assume "oldest_reserve rb = None"
  then show "ring_buffer_reserve_overwrite rb l node_size = Some (None, rb)"
    by (rule overwrite_not_committed)
next
  fix s sn
  assume "oldest_reserve rb = Some s" "nodes rb s = Some sn" "state sn \<noteq> committed"
  then show "ring_buffer_reserve_overwrite rb l node_size = Some (None, rb)"
    by (rule overwrite_not_committed)
next
  fix s sn
  assume "oldest_reserve rb = Some s" "nodes rb s = Some sn" "state sn = committed"
    "p_forward sn = Some s" "p_backward sn = Some s"
  then show "if node_size \<le> capacity rb
          then \<exists>rb' n. ring_buffer_reserve_overwrite rb l node_size =
                   Some (Some (token_of (cache rb)), rb') \<and>
                 HEAD rb' = Some (cache rb) \<and> TAIL rb' = Some (cache rb) \<and>
                 oldest_reserve rb' = Some (cache rb) \<and>
                 nodes rb' (cache rb) = Some n \<and> state n = writing \<and> len n = l \<and>
                 lost rb' = lost rb + 1
          else ring_buffer_reserve_overwrite rb l node_size = Some (None, rb)"
    using overwrite_sole [of rb s sn node_size l] by simp
next
  fix s sn run
  assume "oldest_reserve rb = Some s" "nodes rb s = Some sn" "state sn = committed"
    "\<not> (p_forward sn = Some s \<and> p_backward sn = Some s)"
    "overwrite_walk rb node_size 0 s run" "run_cost rb run < node_size"
  then show "ring_buffer_reserve_overwrite rb l node_size = Some (None, rb)"
    by (rule overwrite_walk_fails)
next
  fix s sn run en w f h
  assume "oldest_reserve rb = Some s" "nodes rb s = Some sn" "state sn = committed"
    "\<not> (p_forward sn = Some s \<and> p_backward sn = Some s)"
    "overwrite_walk rb node_size 0 s run" "\<not> run_cost rb run < node_size"
    "nodes rb (last run) = Some en" "p_newer en = Some w" "p_forward en = Some f"
    "HEAD rb = Some h"
  then show "\<exists>rb' n. ring_buffer_reserve_overwrite rb l node_size =
                       Some (Some (token_of s), rb') \<and>
                     HEAD rb' = Some s \<and> oldest_reserve rb' = Some w \<and>
                     nodes rb' s = Some n \<and> len n = l \<and> p_forward n = Some f \<and>
                     lost rb' = lost rb + of_nat (length run)"
    by (rule overwrite_evicts)
qed

theorem overwrite_walk_decides_eviction_witness:
  "overwrite_walk buffer_256_three 96 0 4144 [4144, 4200] \<and>
   \<not> run_cost buffer_256_three [4144, 4200] < 96 \<and>
   (\<exists>rb' n. ring_buffer_reserve_overwrite buffer_256_three 48 96 = Some (Some 4184, rb') \<and>
      HEAD rb' = Some 4144 \<and> oldest_reserve rb' = Some 4256 \<and>
      nodes rb' 4144 = Some n \<and> len n = 48 \<and> p_forward n = Some 4256 \<and> lost rb' = 2)"
proof -
  let ?A = "\<lparr>p_forward = Some 4200, p_backward = Some 4256, p_newer = Some 4200,
    p_older = None, state = committed, len = 8\<rparr>"
  let ?B = "\<lparr>p_forward = Some 4256, p_backward = Some 4144, p_newer = Some 4256,
    p_older = Some 4144, state = committed, len = 8\<rparr>"
  have c: "\<not> run_cost buffer_256_three [4144, 4200] < 96"
    by (simp add: run_cost_def buffer_256_three_def ring_buffer_defs)
  have start: "oldest_reserve buffer_256_three = Some 4144 \<and> nodes buffer_256_three 4144 = Some ?A"
    by (simp add: buffer_256_three_def)
  have not_sole: "state ?A = committed \<and> \<not> (p_forward ?A = Some 4144 \<and> p_backward ?A = Some 4144)"
    by simp
  have last: "nodes buffer_256_three (last [4144, 4200]) = Some ?B \<and> p_newer ?B = Some 4256 \<and>
      p_forward ?B = Some 4256 \<and> HEAD buffer_256_three = Some 4256"
    by (simp add: buffer_256_three_def)
  note overwrite_walk_decides_eviction [of buffer_256_three 48 96, THEN conjunct2,
      THEN spec, THEN spec, THEN mp, OF start]
  note this [THEN conjunct2, THEN conjunct2, THEN mp, OF not_sole, THEN spec, THEN mp,
      OF walk_three, THEN conjunct2, THEN mp, OF c]
  note this [THEN spec, THEN spec, THEN spec, THEN spec, THEN mp, OF last]
  then show ?thesis
    using walk_three c by (simp add: buffer_256_three_def token_of_def offsetof_token_def)
qed

subsection \<open>C8: the lost counter\<close>

text \<open>
  C8: an overwrite that evicts adds to \<^verbatim>\<open>lost\<close> the number of evicted nodes, 1 when
  the sole node is evicted and the length of the walked run otherwise. Whenever
  \<^verbatim>\<open>oldest_reserve\<close> is present and Committed, consume returns its token, stores the
  current \<^verbatim>\<open>lost\<close> in the out-parameter (when the caller passes one) and resets
  \<^verbatim>\<open>lost\<close> to 0, and no consume that returns a token does anything else to the counter.
  A consume that fails, every commit, and every reserve that does not return the token
  of an evicting overwrite leave \<^verbatim>\<open>lost\<close> as it was.
\<close>

theorem lost_counter:
  "(\<forall>s sn tok rb'. oldest_reserve rb = Some s \<and> nodes rb s = Some sn \<and>
        ring_buffer_reserve_overwrite rb l node_size = Some (Some tok, rb') \<longrightarrow>
      (if p_forward sn = Some s \<and> p_backward sn = Some s then lost rb' = lost rb + 1
       else \<exists>run. overwrite_walk rb node_size 0 s run \<and>
              lost rb' = lost rb + of_nat (length run))) \<and>
   (\<forall>s sn. oldest_reserve rb = Some s \<and> nodes rb s = Some sn \<and> state sn = committed \<longrightarrow>
      (\<exists>rb'. ring_buffer_consume rb lost_p =
           Some (Some (token_of s), (if lost_p = None then None else Some (lost rb)), rb') \<and>
         lost rb' = 0)) \<and>
   (\<forall>tok lost_p' rb'. ring_buffer_consume rb lost_p = Some (Some tok, lost_p', rb') \<longrightarrow>
      lost rb' = 0 \<and> lost_p' = (if lost_p = None then None else Some (lost rb))) \<and>
   (\<forall>lost_p' rb'. ring_buffer_consume rb lost_p = Some (None, lost_p', rb') \<longrightarrow>
      lost rb' = lost rb) \<and>
   (\<forall>r rb'. ring_buffer_commit rb token flags = Some (r, rb') \<longrightarrow> lost rb' = lost rb) \<and>
   (\<forall>t rb'. ring_buffer_reserve rb l flags = Some (t, rb') \<longrightarrow>
      lost rb' = lost rb \<or>
      (t \<noteq> None \<and> TAIL rb \<noteq> None \<and> flags AND ring_buffer_flag_overwrite \<noteq> 0 \<and>
       ring_buffer_reserve_overwrite rb l (ring_buffer_node_cost l) = Some (t, rb')))"
proof (intro conjI allI impI)
  fix s sn tok rb'
  assume "oldest_reserve rb = Some s \<and> nodes rb s = Some sn \<and>
    ring_buffer_reserve_overwrite rb l node_size = Some (Some tok, rb')"
  then show "if p_forward sn = Some s \<and> p_backward sn = Some s then lost rb' = lost rb + 1
       else \<exists>run. overwrite_walk rb node_size 0 s run \<and>
              lost rb' = lost rb + of_nat (length run)"
    using overwrite_lost [of rb l node_size tok rb' s sn] by simp
next
  fix s sn
  assume "oldest_reserve rb = Some s \<and> nodes rb s = Some sn \<and> state sn = committed"
  then show "\<exists>rb'. ring_buffer_consume rb lost_p =
           Some (Some (token_of s), (if lost_p = None then None else Some (lost rb)), rb') \<and>
         lost rb' = 0"
    using consume_committed [of rb s sn lost_p] by auto
next
  fix tok lost_p' rb'
  assume "ring_buffer_consume rb lost_p = Some (Some tok, lost_p', rb')"
  from consume_lost [OF this]
  show "lost rb' = 0" "lost_p' = (if lost_p = None then None else Some (lost rb))" by simp_all
next
  fix lost_p' rb'
  assume "ring_buffer_consume rb lost_p = Some (None, lost_p', rb')"
  then show "lost rb' = lost rb" by (auto dest: consume_absent)
next
  fix r rb'
  assume "ring_buffer_commit rb token flags = Some (r, rb')"
  then show "lost rb' = lost rb" by (rule commit_lost)
next
  fix t rb'
  assume "ring_buffer_reserve rb l flags = Some (t, rb')"
  then show "lost rb' = lost rb \<or>
      (t \<noteq> None \<and> TAIL rb \<noteq> None \<and> flags AND ring_buffer_flag_overwrite \<noteq> 0 \<and>
       ring_buffer_reserve_overwrite rb l (ring_buffer_node_cost l) = Some (t, rb'))"
    by (rule reserve_lost)
qed

text \<open>
  Two instances: the overwrite that evicts the first two of three committed records adds
  the length of the walked run, and a consume on the same three records, with \<^verbatim>\<open>lost\<close>
  at 5 and an out-parameter holding 9, returns the oldest token, leaves 5 in the
  out-parameter and resets \<^verbatim>\<open>lost\<close> to 0.
\<close>

theorem lost_counter_witness:
  "(\<exists>run. overwrite_walk buffer_256_three 96 0 4144 run \<and>
      lost (snd (the (ring_buffer_reserve_overwrite buffer_256_three 48 96))) =
        lost buffer_256_three + of_nat (length run)) \<and>
   (\<exists>rb'. ring_buffer_consume (buffer_256_three\<lparr>lost := 5\<rparr>) (Some 9) =
        Some (Some 4184, Some 5, rb') \<and> lost rb' = 0)"
proof
  let ?A = "\<lparr>p_forward = Some 4200, p_backward = Some 4256, p_newer = Some 4200,
    p_older = None, state = committed, len = 8\<rparr>"
  have "oldest_reserve buffer_256_three = Some 4144 \<and>
      nodes buffer_256_three 4144 = Some ?A \<and>
      ring_buffer_reserve_overwrite buffer_256_three 48 96 =
        Some (Some 4184, snd (the (ring_buffer_reserve_overwrite buffer_256_three 48 96)))"
    using overwrite_three_result by (simp add: buffer_256_three_def)
  from lost_counter [where rb = buffer_256_three and l = 48 and node_size = 96,
      THEN conjunct1, THEN spec, THEN spec, THEN spec, THEN spec, THEN mp, OF this]
  show "\<exists>run. overwrite_walk buffer_256_three 96 0 4144 run \<and>
      lost (snd (the (ring_buffer_reserve_overwrite buffer_256_three 48 96))) =
        lost buffer_256_three + of_nat (length run)"
    by simp
  have "oldest_reserve (buffer_256_three\<lparr>lost := 5\<rparr>) = Some 4144 \<and>
      nodes (buffer_256_three\<lparr>lost := 5\<rparr>) 4144 = Some ?A \<and> state ?A = committed"
    by (simp add: buffer_256_three_def)
  from lost_counter [where rb = "buffer_256_three\<lparr>lost := 5\<rparr>" and lost_p = "Some 9",
      THEN conjunct2, THEN conjunct1, THEN spec, THEN spec, THEN mp, OF this]
  show "\<exists>rb'. ring_buffer_consume (buffer_256_three\<lparr>lost := 5\<rparr>) (Some 9) =
        Some (Some 4184, Some 5, rb') \<and> lost rb' = 0"
    by (simp add: token_of_def offsetof_token_def)
qed

subsection \<open>C7: reserve when the wrap point lies behind \<^verbatim>\<open>HEAD\<close>\<close>

text \<open>
  C7: when the position-forward neighbour of \<^verbatim>\<open>HEAD\<close> lies at a lower address than
  \<^verbatim>\<open>HEAD\<close>, reserve places the new node right behind \<^verbatim>\<open>HEAD\<close> if it fits the tail
  region, which ends at \<^verbatim>\<open>cache + capacity\<close>; otherwise at the start of the cache if it
  fits the head region, which ends at that neighbour; otherwise it attempts overwrite
  when \<^verbatim>\<open>OVERWRITE\<close> is set and returns absent when it is not. The new node is Writing,
  carries the requested length and is the new \<^verbatim>\<open>HEAD\<close>.
\<close>

theorem reserve_when_head_wraps:
  assumes "TAIL rb \<noteq> None" "HEAD rb = Some h" "nodes rb h = Some hn"
    "p_forward hn = Some f" "f < h"
  shows
    "(ring_buffer_node_cost l \<le> cache rb + capacity rb - (h + ring_buffer_node_cost (len hn)) \<longrightarrow>
        (\<exists>rb' n. ring_buffer_reserve rb l flags =
             Some (Some (token_of (h + ring_buffer_node_cost (len hn))), rb') \<and>
           HEAD rb' = Some (h + ring_buffer_node_cost (len hn)) \<and>
           nodes rb' (h + ring_buffer_node_cost (len hn)) = Some n \<and>
           state n = writing \<and> len n = l)) \<and>
     (\<not> ring_buffer_node_cost l \<le> cache rb + capacity rb - (h + ring_buffer_node_cost (len hn)) \<and>
      ring_buffer_node_cost l \<le> f - cache rb \<longrightarrow>
        (\<exists>rb' n. ring_buffer_reserve rb l flags = Some (Some (token_of (cache rb)), rb') \<and>
           HEAD rb' = Some (cache rb) \<and> nodes rb' (cache rb) = Some n \<and>
           state n = writing \<and> len n = l)) \<and>
     (\<not> ring_buffer_node_cost l \<le> cache rb + capacity rb - (h + ring_buffer_node_cost (len hn)) \<and>
      \<not> ring_buffer_node_cost l \<le> f - cache rb \<longrightarrow>
        ring_buffer_reserve rb l flags =
          (if flags AND ring_buffer_flag_overwrite \<noteq> 0
           then ring_buffer_reserve_overwrite rb l (ring_buffer_node_cost l)
           else Some (None, rb)))"
proof -
  let ?nxt = "h + ring_buffer_node_cost (len hn)"
  have region: "capacity rb - (?nxt - cache rb) = cache rb + capacity rb - ?nxt"
    by simp
  have h: "mapped rb h" "node_at rb h = hn"
    using assms(3) by (simp_all add: nodes_eq_Some)
  have nf: "\<not> h < f" using assms(5) by simp
  from assms(1) obtain t where t: "TAIL rb = Some t" by auto
  have code: "ring_buffer_reserve rb l flags =
      (if ring_buffer_node_cost l \<le> capacity rb - (?nxt - cache rb)
       then ring_buffer_insert_new_node rb ?nxt l \<bind> (\<lambda>rb'. Some (Some (token_of ?nxt), rb'))
       else if ring_buffer_node_cost l \<le> f - cache rb
       then ring_buffer_insert_new_node rb (cache rb) l \<bind>
              (\<lambda>rb'. Some (Some (token_of (cache rb)), rb'))
       else if flags AND ring_buffer_flag_overwrite \<noteq> 0
       then ring_buffer_reserve_overwrite rb l (ring_buffer_node_cost l)
       else Some (None, rb))"
    using t assms(2,4) h nf
    by (simp add: ring_buffer_reserve_def ring_buffer_reserve_none_empty_def
        ring_buffer_node_cost_def Let_def del: diff_diff_eq2)
  have unfolded: "ring_buffer_reserve rb l flags =
      (if ring_buffer_node_cost l \<le> cache rb + capacity rb - ?nxt
       then ring_buffer_insert_new_node rb ?nxt l \<bind> (\<lambda>rb'. Some (Some (token_of ?nxt), rb'))
       else if ring_buffer_node_cost l \<le> f - cache rb
       then ring_buffer_insert_new_node rb (cache rb) l \<bind>
              (\<lambda>rb'. Some (Some (token_of (cache rb)), rb'))
       else if flags AND ring_buffer_flag_overwrite \<noteq> 0
       then ring_buffer_reserve_overwrite rb l (ring_buffer_node_cost l)
       else Some (None, rb))"
    unfolding code region ..
  from insert_new_node_result [OF assms(2-4), of ?nxt l]
    insert_new_node_result [OF assms(2-4), of "cache rb" l]
  show ?thesis
    unfolding unfolded by auto
qed

theorem reserve_when_head_wraps_witness:
  "\<exists>rb'. ring_buffer_reserve buffer_256_wrapped 0 0 = Some (Some (token_of 4144), rb') \<and>
     HEAD rb' = Some 4144"
  using reserve_when_head_wraps [of buffer_256_wrapped 4256
      "\<lparr>p_forward = Some 4200, p_backward = Some 4200, p_newer = None,
         p_older = Some 4200, state = committed, len = 80\<rparr>" 4200 0 0]
  by (auto simp: buffer_256_wrapped_def ring_buffer_node_cost_def ring_buffer_node_cost_inl_def
      ALIGN_SIZE_def sizeof_void_p_def sizeof_ring_buffer_node_t_def)

subsection \<open>C9: the count returned by foreach\<close>

text \<open>
  C9 states that foreach returns the number of nodes on which the visitor was invoked.
  On a buffer with one node and a visitor that returns \<open>-1\<close>, the visitor is invoked on
  the node at 4144 and foreach returns 0.
\<close>

theorem foreach_stopped_counts_nothing:
  "run_foreach_stopped = Some (0, [4144])"
  by code_simp

text \<open>
  C9 as amended: when the time chain from \<^verbatim>\<open>TAIL\<close> is the list \<open>ns\<close>, foreach invokes the
  visitor on the nodes of \<open>ns\<close> in order, stops after the first node on which the visitor
  returns a negative value, and returns the number of nodes on which the visitor returned
  a non-negative value: the node that stops the walk is visited and not counted.
\<close>

theorem foreach_counts_accepted_nodes:
  assumes "time_chain rb (TAIL rb) ns" "length ns < fuel"
  shows "ring_buffer_foreach fuel rb cb =
           Some (int (length (takeWhile (\<lambda>a. 0 \<le> visit rb cb a) ns)),
                 take (Suc (length (takeWhile (\<lambda>a. 0 \<le> visit rb cb a) ns))) ns)"
  using foreach_loop_chain [OF assms, of cb 0 "[]"]
  by (simp add: ring_buffer_foreach_def)

theorem foreach_counts_accepted_nodes_witness:
  "time_chain buffer_256_three (TAIL buffer_256_three) [4144, 4200, 4256] \<and>
   ring_buffer_foreach 4 buffer_256_three (\<lambda>t s. if t = token_of 4200 then - 1 else 0) =
     Some (1, [4144, 4200])"
proof -
  have c: "time_chain buffer_256_three (TAIL buffer_256_three) [4144, 4200, 4256]"
    by (simp add: buffer_256_three_def)
  have l: "length [4144 :: addr, 4200, 4256] < 4" by simp
  from foreach_counts_accepted_nodes [OF c l, of "\<lambda>t s. if t = token_of 4200 then - 1 else 0"] c
  show ?thesis
    by (simp add: visit_def token_of_def offsetof_token_def)
qed

subsection \<open>C2: the order of consumed records\<close>

text \<open>
  C2 states that the records returned by consume, in order, are the records committed
  via write-confirm, in order. In the run below A (token 4184) is reserved before B
  (token 4240) and B is confirmed before A; the write-confirms come in the order B, A and
  the consumes return A, B: consume follows the time chain, which is the order of the
  reservations.
\<close>

theorem consume_follows_reservation_order:
  "run_commit_out_of_order = Some ([Some 4240, Some 4184], [Some 4184, Some 4240])"
  by (simp add: run_commit_out_of_order_def ring_buffer_defs)

end
